theory Spec2Isabelle
  imports Main "HOL-Library.Word"
begin

section \<open>The per-core scheduler of the hypervisor (core/vmm\_scheduler.c)\<close>

text \<open>
  The file under study holds the scheduler control structure \<open>sched\<close> and the functions
  \<open>vmm_scheduler_next\<close> (the dispatcher), \<open>vmm_scheduler_timer_event\<close> (the tick
  accountant), \<open>vmm_scheduler_irq_process\<close> (the interrupt gate), the two accessors, the
  preemption guard and \<open>vmm_scheduler_init\<close>. Its headers are not part of the sources:
  the vcpu structure, the state constants, the vcpu registry (\<open>vmm_manager_vcpu\<close>,
  \<open>vmm_manager_vcpu_count\<close>), the register exchange, the vcpu interrupt processing and
  the timer are collaborators. Their data is modelled from the specification, and every
  call to a collaborator that only acts outside the scheduler is recorded in a call log.
\<close>

subsection \<open>Data model\<close>

text \<open>
  Modelled from the spec: the state constants \<open>VMM_VCPU_STATE_*\<close> are declared in a header
  that is not among the sources. The spec (section 3) lists the five states of a vcpu.
\<close>

datatype vcpu_state =
    VMM_VCPU_STATE_RESET
  | VMM_VCPU_STATE_READY
  | VMM_VCPU_STATE_RUNNING
  | VMM_VCPU_STATE_PAUSED
  | VMM_VCPU_STATE_HALTED

text \<open>
  Modelled from the spec: the mask \<open>VMM_VCPU_STATE_SAVEABLE\<close> is declared in the same
  missing header. The source tests \<open>cur_vcpu->state & VMM_VCPU_STATE_SAVEABLE\<close>; the spec
  (section 4.1) says that the saveable states are Ready and Running.
\<close>

fun VMM_VCPU_STATE_SAVEABLE :: "vcpu_state \<Rightarrow> bool" where
  "VMM_VCPU_STATE_SAVEABLE VMM_VCPU_STATE_READY = True"
| "VMM_VCPU_STATE_SAVEABLE VMM_VCPU_STATE_RUNNING = True"
| "VMM_VCPU_STATE_SAVEABLE _ = False"

text \<open>
  Modelled from the spec: \<open>vmm_vcpu_t\<close> is declared in a missing header. These are the
  fields the scheduler touches (spec section 3). \<open>preempt_count\<close> is the spec's
  non-negative integer in a field of fixed width, an unsigned 32-bit word as the other
  integers of the source are 32 bits wide (\<open>s32 next\<close>, line 36): \<open>preempt_count++\<close>
  of line 141 wraps at the maximum. The tick counters are integers; the source only
  copies them, tests them against zero and subtracts one from a counter that is not zero.
  A function pointer is an optional address, \<open>None\<close> being \<open>NULL\<close>.
\<close>

record vmm_vcpu =
  num :: int
  guest :: nat
  state :: vcpu_state
  preempt_count :: "32 word"
  tick_count :: int
  tick_pending :: int
  tick_func :: "nat option"

text \<open>
  Calls to collaborators whose effect lies outside the scheduler. The register exchange
  receives pointers to the two vcpus; the log keeps the vcpus as they are at the call.
\<close>

datatype call =
    VCPU_REGS_SWITCH "vmm_vcpu option" vmm_vcpu
  | VCPU_IRQ_PROCESS
  | TICK_FUNC nat int
  | TIMER_EVENT_CREATE string
  | TIMER_EVENT_START nat int
  | TIMER_EVENT_RESTART nat

text \<open>
  The state of one core: the fields of \<open>sched\<close> (\<open>vcpu_current\<close>, \<open>ev\<close>), the vcpu array
  of the registry, and the call log. The spin lock of \<open>sched\<close> and the masking of
  interrupts are not modelled: the embedding is sequential.
\<close>

record sys =
  vcpu_current :: int
  ev :: "nat option"
  vcpus :: "vmm_vcpu list"
  calls :: "call list"

text \<open>
  What the C code can do without returning a value: divide by zero and dereference
  \<open>NULL\<close>. A loop that never exits is the value \<open>None\<close> of the enclosing option.
\<close>

datatype fault = DIV_BY_ZERO | NULL_DEREF

datatype retcode = VMM_OK | VMM_EFAIL

subsection \<open>The registry and pointers into it\<close>

text \<open>
  Modelled from the spec: \<open>vmm_manager_vcpu\<close> and \<open>vmm_manager_vcpu_count\<close> belong to the
  registry, which is not among the sources (spec section 6: \<open>resolve(id) -> vcpu|absent\<close>,
  \<open>count() -> integer\<close>; section 3: the id is a stable index into the registry). A pointer
  to a vcpu is its position in the array.
\<close>

definition vmm_manager_vcpu_count :: "sys \<Rightarrow> int" where
  "vmm_manager_vcpu_count s = int (length (vcpus s))"

definition vmm_manager_vcpu :: "sys \<Rightarrow> int \<Rightarrow> nat option" where
  "vmm_manager_vcpu s n =
     (if 0 \<le> n \<and> n < vmm_manager_vcpu_count s then Some (nat n) else None)"

definition deref :: "sys \<Rightarrow> nat \<Rightarrow> vmm_vcpu" where
  "deref s p = vcpus s ! p"

definition assign :: "nat \<Rightarrow> (vmm_vcpu \<Rightarrow> vmm_vcpu) \<Rightarrow> sys \<Rightarrow> sys" where
  "assign p f s = s\<lparr>vcpus := (vcpus s)[p := f (vcpus s ! p)]\<rparr>"

definition log_call :: "call \<Rightarrow> sys \<Rightarrow> sys" where
  "log_call c s = s\<lparr>calls := calls s @ [c]\<rparr>"

text \<open>The registry is well formed when every vcpu carries its own index in \<open>num\<close>.\<close>

definition registry_ok :: "sys \<Rightarrow> bool" where
  "registry_ok s = (map num (vcpus s) = map int [0..<length (vcpus s)])"

subsection \<open>The dispatcher\<close>

text \<open>
  \<open>(next + 1) % vmm_manager_vcpu_count()\<close>, lines 44 and 48: a division by zero when the
  registry is empty. In a well-formed registry the left operand is never negative (it is
  \<open>-1 + 1\<close> or an index plus one), and there \<open>mod\<close> is the remainder of C.
\<close>

definition next_index :: "sys \<Rightarrow> int \<Rightarrow> fault + int" where
  "next_index s next =
     (if vmm_manager_vcpu_count s = 0 then Inl DIV_BY_ZERO
      else Inr ((next + 1) mod vmm_manager_vcpu_count s))"

text \<open>
  The loop of lines 45 to 50, entered with the value of \<open>next\<close>; it returns the pointer
  \<open>nxt_vcpu\<close>.
\<close>

partial_function (option) vmm_scheduler_next_loop :: "sys \<Rightarrow> int \<Rightarrow> (fault + nat) option" where
  "vmm_scheduler_next_loop s next =
     (case vmm_manager_vcpu s next of
        None \<Rightarrow> Some (Inl NULL_DEREF)
      | Some nxt_vcpu \<Rightarrow>
          if state (deref s nxt_vcpu) \<noteq> VMM_VCPU_STATE_READY \<and> next \<noteq> vcpu_current s
          then (case next_index s next of
                  Inl e \<Rightarrow> Some (Inl e)
                | Inr next' \<Rightarrow> vmm_scheduler_next_loop s next')
          else Some (Inr nxt_vcpu))"

declare vmm_scheduler_next_loop.simps [code]

text \<open>Modelled from the spec: the register exchange \<open>exchange(from, to, frame)\<close>.\<close>

definition vmm_vcpu_regs_switch :: "nat option \<Rightarrow> nat \<Rightarrow> sys \<Rightarrow> sys" where
  "vmm_vcpu_regs_switch from to s =
     log_call (VCPU_REGS_SWITCH (map_option (deref s) from) (deref s to)) s"

text \<open>
  Lines 52 to 62: the context switch between the current and the next vcpu. The tests
  \<open>!cur_vcpu || (cur_vcpu->num != nxt_vcpu->num)\<close> and
  \<open>cur_vcpu && (cur_vcpu->state & VMM_VCPU_STATE_SAVEABLE)\<close> are the case distinction on
  \<open>cur_vcpu\<close>. The demotion of line 56 precedes the call of line 58.
\<close>

definition context_switch :: "nat option \<Rightarrow> nat \<Rightarrow> sys \<Rightarrow> sys" where
  "context_switch cur_vcpu nxt_vcpu s =
     (case cur_vcpu of
        None \<Rightarrow> vmm_vcpu_regs_switch None nxt_vcpu s
      | Some c \<Rightarrow>
          if num (deref s c) \<noteq> num (deref s nxt_vcpu) then
            if VMM_VCPU_STATE_SAVEABLE (state (deref s c)) then
              vmm_vcpu_regs_switch (Some c) nxt_vcpu
                (if state (deref s c) = VMM_VCPU_STATE_RUNNING
                 then assign c (\<lambda>v. v\<lparr>state := VMM_VCPU_STATE_READY\<rparr>) s
                 else s)
            else vmm_vcpu_regs_switch None nxt_vcpu s
          else s)"

text \<open>
  Lines 64 to 68: the next vcpu becomes the running one. The test \<open>if (nxt_vcpu)\<close> of line
  64 holds whenever it is reached, since the loop has read \<open>nxt_vcpu->state\<close>.
\<close>

definition make_current :: "nat \<Rightarrow> sys \<Rightarrow> sys" where
  "make_current nxt_vcpu s =
     (let s1 = assign nxt_vcpu (\<lambda>v. v\<lparr>tick_pending := tick_count v\<rparr>) s;
          s2 = assign nxt_vcpu (\<lambda>v. v\<lparr>state := VMM_VCPU_STATE_RUNNING\<rparr>) s1
      in s2\<lparr>vcpu_current := num (deref s2 nxt_vcpu)\<rparr>)"

definition vmm_scheduler_next :: "sys \<Rightarrow> (fault + sys) option" where
  "vmm_scheduler_next s =
     (let cur_vcpu = vmm_manager_vcpu s (vcpu_current s) in
      case next_index s (case cur_vcpu of Some c \<Rightarrow> num (deref s c) | None \<Rightarrow> - 1) of
        Inl e \<Rightarrow> Some (Inl e)
      | Inr next \<Rightarrow>
          (case vmm_scheduler_next_loop s next of
             None \<Rightarrow> None
           | Some (Inl e) \<Rightarrow> Some (Inl e)
           | Some (Inr nxt_vcpu) \<Rightarrow>
               Some (Inr (make_current nxt_vcpu (context_switch cur_vcpu nxt_vcpu s)))))"

subsection \<open>The tick accountant\<close>

text \<open>
  Modelled from the spec: \<open>vmm_timer_event_restart\<close> belongs to the timer (spec section 6,
  \<open>restart(handle)\<close>); the call is logged with the handle of the event.
\<close>

definition vmm_timer_event_restart :: "nat \<Rightarrow> sys \<Rightarrow> sys" where
  "vmm_timer_event_restart event s = log_call (TIMER_EVENT_RESTART event) s"

text \<open>
  Lines 79 to 83. The hook \<open>tick_func\<close> is a function pointer into code outside the
  scheduler; its call is logged with the remaining ticks it receives.
\<close>

definition tick_down :: "nat \<Rightarrow> sys \<Rightarrow> sys" where
  "tick_down vcpu s =
     (let s1 = assign vcpu (\<lambda>v. v\<lparr>tick_pending := tick_pending v - 1\<rparr>) s in
      case tick_func (deref s1 vcpu) of
        Some f \<Rightarrow>
          if preempt_count (deref s1 vcpu) = 0
          then log_call (TICK_FUNC f (tick_pending (deref s1 vcpu))) s1
          else s1
      | None \<Rightarrow> s1)"

definition vmm_scheduler_timer_event :: "nat \<Rightarrow> sys \<Rightarrow> (fault + sys) option" where
  "vmm_scheduler_timer_event event s =
     map_option (map_sum id (vmm_timer_event_restart event))
       (case vmm_manager_vcpu s (vcpu_current s) of
          Some vcpu \<Rightarrow>
            if preempt_count (deref s vcpu) = 0 then
              if tick_pending (deref s vcpu) = 0 then vmm_scheduler_next s
              else Some (Inr (tick_down vcpu s))
            else Some (Inr s)
        | None \<Rightarrow> vmm_scheduler_next s)"

subsection \<open>The interrupt gate\<close>

text \<open>
  Modelled from the spec: \<open>vmm_vcpu_irq_process\<close> is the interrupt processing of the vcpu
  (spec section 6, \<open>process(frame)\<close>); the call is logged.
\<close>

definition vmm_vcpu_irq_process :: "sys \<Rightarrow> sys" where
  "vmm_vcpu_irq_process s = log_call VCPU_IRQ_PROCESS s"

definition vmm_scheduler_irq_process :: "sys \<Rightarrow> (fault + sys) option" where
  "vmm_scheduler_irq_process s =
     (case vmm_manager_vcpu s (vcpu_current s) of
        None \<Rightarrow> Some (Inr s)
      | Some vcpu \<Rightarrow>
          if state (deref s vcpu) \<noteq> VMM_VCPU_STATE_RUNNING then vmm_scheduler_next s
          else Some (Inr (vmm_vcpu_irq_process s)))"

subsection \<open>Accessors and the preemption guard\<close>

definition vmm_scheduler_current_vcpu :: "sys \<Rightarrow> nat option" where
  "vmm_scheduler_current_vcpu s =
     (if vcpu_current s \<noteq> - 1 then vmm_manager_vcpu s (vcpu_current s) else None)"

definition vmm_scheduler_current_guest :: "sys \<Rightarrow> nat option" where
  "vmm_scheduler_current_guest s =
     (case vmm_scheduler_current_vcpu s of
        Some vcpu \<Rightarrow> Some (guest (deref s vcpu))
      | None \<Rightarrow> None)"

definition vmm_scheduler_preempt_disable :: "sys \<Rightarrow> sys" where
  "vmm_scheduler_preempt_disable s =
     (case vmm_scheduler_current_vcpu s of
        Some vcpu \<Rightarrow> assign vcpu (\<lambda>v. v\<lparr>preempt_count := preempt_count v + 1\<rparr>) s
      | None \<Rightarrow> s)"

definition vmm_scheduler_preempt_enable :: "sys \<Rightarrow> sys" where
  "vmm_scheduler_preempt_enable s =
     (case vmm_scheduler_current_vcpu s of
        Some vcpu \<Rightarrow>
          if preempt_count (deref s vcpu) \<noteq> 0
          then assign vcpu (\<lambda>v. v\<lparr>preempt_count := preempt_count v - 1\<rparr>) s
          else s
      | None \<Rightarrow> s)"

subsection \<open>The initializer\<close>

text \<open>
  The result of \<open>vmm_timer_event_create\<close> (a handle, or \<open>NULL\<close> when the allocation
  fails) and the value of \<open>vmm_timer_tick_nsecs()\<close> come from the timer, outside the
  scheduler: they are parameters. \<open>vmm_memset\<close> zeroes both fields of \<open>sched\<close>.
\<close>

definition vmm_scheduler_init :: "nat option \<Rightarrow> int \<Rightarrow> sys \<Rightarrow> retcode \<times> sys" where
  "vmm_scheduler_init created tick_nsecs s =
     (let s1 = s\<lparr>vcpu_current := 0, ev := None\<rparr>;
          s2 = s1\<lparr>vcpu_current := - 1\<rparr>;
          s3 = (log_call (TIMER_EVENT_CREATE ''sched'') s2)\<lparr>ev := created\<rparr>
      in case ev s3 of
           None \<Rightarrow> (VMM_EFAIL, s3)
         | Some e \<Rightarrow> (VMM_OK, log_call (TIMER_EVENT_START e tick_nsecs) s3))"

subsection \<open>Notions used by the properties\<close>

text \<open>
  The exit test of the loop of \<open>vmm_scheduler_next\<close> (lines 46 and 47, negated): the
  candidate is Ready, or it is the index held in \<open>sched.vcpu_current\<close>.
\<close>

definition probe_stops :: "sys \<Rightarrow> int \<Rightarrow> bool" where
  "probe_stops s next =
     (\<not> (state (deref s (nat next)) \<noteq> VMM_VCPU_STATE_READY \<and> next \<noteq> vcpu_current s))"

text \<open>
  Follows the spec's words (section 4.1), to be compared with the loop of the source: the
  candidate starts at \<open>(current_index + 1) mod N\<close>, or at 0 without a current vcpu, and
  advances by \<open>(candidate + 1) mod N\<close>; at most \<open>N\<close> candidates are probed. The selected
  candidate is the first one in this order that is Ready or is the current index.
\<close>

definition probe_order :: "sys \<Rightarrow> int list" where
  "probe_order s =
     (let N = vmm_manager_vcpu_count s;
          start = (case vmm_manager_vcpu s (vcpu_current s) of
                     Some c \<Rightarrow> (int c + 1) mod N
                   | None \<Rightarrow> 0)
      in map (\<lambda>i. (start + int i) mod N) [0..<nat N])"

definition select_candidate :: "sys \<Rightarrow> int option" where
  "select_candidate s =
     find (\<lambda>i. state (deref s (nat i)) = VMM_VCPU_STATE_READY \<or> i = vcpu_current s)
       (probe_order s)"

text \<open>
  The states in which the search of the dispatcher can end: there is a current vcpu, or
  some vcpu is Ready.
\<close>

definition can_dispatch :: "sys \<Rightarrow> bool" where
  "can_dispatch s =
     (vmm_manager_vcpu s (vcpu_current s) \<noteq> None \<or>
      (\<exists>v \<in> set (vcpus s). state v = VMM_VCPU_STATE_READY))"

text \<open>The indices of the Ready vcpus, in increasing order.\<close>

definition ready_list :: "sys \<Rightarrow> int list" where
  "ready_list s =
     filter (\<lambda>i. state (deref s (nat i)) = VMM_VCPU_STATE_READY)
       (map int [0..<length (vcpus s)])"

text \<open>
  The number of times the loop advances before it probes candidate \<open>x\<close>: the distance from
  the start \<open>next + 1\<close> of line 44 to \<open>x\<close>, round the registry.
\<close>

definition probe_dist :: "sys \<Rightarrow> int \<Rightarrow> int" where
  "probe_dist s x =
     (x - (case vmm_manager_vcpu s (vcpu_current s) of
             Some c \<Rightarrow> num (deref s c)
           | None \<Rightarrow> - 1) - 1) mod vmm_manager_vcpu_count s"

text \<open>
  The invariant of repeated dispatch, for a set \<open>U\<close> of Ready vcpus that are still to be
  visited: every other Ready vcpu is probed after all of \<open>U\<close>.
\<close>

definition to_visit :: "sys \<Rightarrow> int set \<Rightarrow> bool" where
  "to_visit s U =
     (registry_ok s \<and>
      (\<forall>u \<in> U. 0 \<le> u \<and> u < vmm_manager_vcpu_count s \<and>
                state (deref s (nat u)) = VMM_VCPU_STATE_READY) \<and>
      (\<forall>y. 0 \<le> y \<and> y < vmm_manager_vcpu_count s \<and>
            state (deref s (nat y)) = VMM_VCPU_STATE_READY \<and> y \<notin> U \<longrightarrow>
            (\<forall>u \<in> U. probe_dist s u < probe_dist s y)))"

text \<open>
  Repeated dispatch with nothing in between: \<open>k\<close> calls of \<open>vmm_scheduler_next\<close>, with the
  list of the vcpus they make current.
\<close>

fun dispatches :: "nat \<Rightarrow> sys \<Rightarrow> (fault + int list \<times> sys) option" where
  "dispatches 0 s = Some (Inr ([], s))"
| "dispatches (Suc k) s =
     (case vmm_scheduler_next s of
        None \<Rightarrow> None
      | Some (Inl e) \<Rightarrow> Some (Inl e)
      | Some (Inr s1) \<Rightarrow>
          (case dispatches k s1 of
             None \<Rightarrow> None
           | Some (Inl e) \<Rightarrow> Some (Inl e)
           | Some (Inr (sel, s2)) \<Rightarrow> Some (Inr (vcpu_current s1 # sel, s2))))"

text \<open>Consecutive timer ticks: \<open>k\<close> calls of \<open>vmm_scheduler_timer_event\<close>.\<close>

fun timer_events :: "nat \<Rightarrow> nat \<Rightarrow> sys \<Rightarrow> (fault + sys) option" where
  "timer_events event 0 s = Some (Inr s)"
| "timer_events event (Suc k) s =
     (case vmm_scheduler_timer_event event s of
        None \<Rightarrow> None
      | Some (Inl e) \<Rightarrow> Some (Inl e)
      | Some (Inr s1) \<Rightarrow> timer_events event k s1)"

text \<open>A sequence of calls of the preemption guard.\<close>

datatype guard_call = PREEMPT_DISABLE | PREEMPT_ENABLE

fun guard_step :: "guard_call \<Rightarrow> sys \<Rightarrow> sys" where
  "guard_step PREEMPT_DISABLE s = vmm_scheduler_preempt_disable s"
| "guard_step PREEMPT_ENABLE s = vmm_scheduler_preempt_enable s"

text \<open>
  Follows the spec's words (section 4.4), to be compared with the guard of the source: the
  nesting depth as a number. Disabling adds one, within the 32 bits of the field; enabling
  subtracts one from a positive depth and leaves the depth zero as it is, so that no step
  goes below zero.
\<close>

fun depth_after :: "guard_call \<Rightarrow> int \<Rightarrow> int" where
  "depth_after PREEMPT_DISABLE n = (n + 1) mod 2 ^ 32"
| "depth_after PREEMPT_ENABLE n = (if 0 < n then n - 1 else n)"

text \<open>
  Concrete cores for the examples: a vcpu with index \<open>n\<close> in state \<open>st\<close> and a quantum of
  one tick (the scenario of the spec, section 8), and a core with the given current index.
\<close>

definition vcpu_at :: "int \<Rightarrow> vcpu_state \<Rightarrow> vmm_vcpu" where
  "vcpu_at n st =
     \<lparr>num = n, guest = 0, state = st, preempt_count = 0, tick_count = 1, tick_pending = 1,
      tick_func = None\<rparr>"

definition core_with :: "int \<Rightarrow> vmm_vcpu list \<Rightarrow> sys" where
  "core_with cur vs = \<lparr>vcpu_current = cur, ev = Some 0, vcpus = vs, calls = []\<rparr>"

text \<open>
  The scenario of the spec (section 8): A, B and C with a quantum of one tick, A Running
  and current; and the core after the dispatch that demotes A and selects B.
\<close>

definition scenario :: sys where
  "scenario =
     core_with 0 [vcpu_at 0 VMM_VCPU_STATE_RUNNING, vcpu_at 1 VMM_VCPU_STATE_READY,
                  vcpu_at 2 VMM_VCPU_STATE_READY]"

definition scenario_next :: sys where
  "scenario_next =
     \<lparr>vcpu_current = 1, ev = Some 0,
      vcpus = [vcpu_at 0 VMM_VCPU_STATE_READY, vcpu_at 1 VMM_VCPU_STATE_RUNNING,
               vcpu_at 2 VMM_VCPU_STATE_READY],
      calls = [VCPU_REGS_SWITCH (Some (vcpu_at 0 VMM_VCPU_STATE_READY))
                 (vcpu_at 1 VMM_VCPU_STATE_READY)]\<rparr>"

section \<open>Properties\<close>

lemmas ptr_defs =
  deref_def assign_def log_call_def vmm_manager_vcpu_def vmm_manager_vcpu_count_def

lemmas example_defs = vcpu_at_def core_with_def scenario_def scenario_next_def

subsection \<open>The probing loop\<close>

lemma next_loop_unfold:
  assumes "0 \<le> n" "n < vmm_manager_vcpu_count s"
  shows "vmm_scheduler_next_loop s n =
           (if probe_stops s n then Some (Inr (nat n))
            else vmm_scheduler_next_loop s ((n + 1) mod vmm_manager_vcpu_count s))"
  using assms
  by (subst vmm_scheduler_next_loop.simps)
     (simp add: vmm_manager_vcpu_def next_index_def probe_stops_def)

text \<open>
  If the candidate reached after \<open>j\<close> advances is the first that passes the exit test, the
  loop returns it.
\<close>

lemma next_loop_found:
  assumes "0 \<le> n" "n < vmm_manager_vcpu_count s"
    and "\<forall>i<j. \<not> probe_stops s ((n + int i) mod vmm_manager_vcpu_count s)"
    and "probe_stops s ((n + int j) mod vmm_manager_vcpu_count s)"
  shows "vmm_scheduler_next_loop s n =
           Some (Inr (nat ((n + int j) mod vmm_manager_vcpu_count s)))"
  using assms
proof (induction j arbitrary: n)
  case 0
  then show ?case by (simp add: next_loop_unfold)
next
  case (Suc j)
  let ?N = "vmm_manager_vcpu_count s"
  let ?n' = "(n + 1) mod ?N"
  from Suc.prems have N: "0 < ?N" by simp
  from Suc.prems(3) have "\<not> probe_stops s ((n + int 0) mod ?N)" by blast
  with Suc.prems(1,2) have ns: "\<not> probe_stops s n" by simp
  have shift: "(?n' + int i) mod ?N = (n + int (Suc i)) mod ?N" for i
  proof -
    have "(?n' + int i) mod ?N = (n + 1 + int i) mod ?N"
      by (rule mod_add_left_eq)
    then show ?thesis by (simp add: add.assoc)
  qed
  have "vmm_scheduler_next_loop s ?n' = Some (Inr (nat ((?n' + int j) mod ?N)))"
  proof (rule Suc.IH)
    show "0 \<le> ?n'" using N by simp
    show "?n' < ?N" using N by simp
    show "\<forall>i<j. \<not> probe_stops s ((?n' + int i) mod ?N)"
      using Suc.prems(3) by (simp add: shift del: of_nat_Suc)
    show "probe_stops s ((?n' + int j) mod ?N)"
      using Suc.prems(4) by (simp add: shift del: of_nat_Suc)
  qed
  then show ?case
    using Suc.prems(1,2) ns by (simp add: next_loop_unfold shift del: of_nat_Suc)
qed

text \<open>
  If no candidate passes the exit test, the loop has no result: by the induction principle
  of the partial function, a result would have to come from a recursive call.
\<close>

lemma next_loop_no_result:
  assumes "vmm_scheduler_next_loop s n = Some y"
  shows "\<not> ((\<forall>i. 0 \<le> i \<and> i < vmm_manager_vcpu_count s \<longrightarrow> \<not> probe_stops s i) \<and>
            0 \<le> n \<and> n < vmm_manager_vcpu_count s)"
proof (rule vmm_scheduler_next_loop.raw_induct
    [where P = "\<lambda>s n y. \<not> ((\<forall>i. 0 \<le> i \<and> i < vmm_manager_vcpu_count s \<longrightarrow> \<not> probe_stops s i) \<and>
            0 \<le> n \<and> n < vmm_manager_vcpu_count s)", OF _ assms])
  fix loop s n y
  assume IH: "\<And>s n y. loop s n = Some y \<Longrightarrow>
           \<not> ((\<forall>i. 0 \<le> i \<and> i < vmm_manager_vcpu_count s \<longrightarrow> \<not> probe_stops s i) \<and>
            0 \<le> n \<and> n < vmm_manager_vcpu_count s)"
    and body: "(case vmm_manager_vcpu s n of
        None \<Rightarrow> Some (Inl NULL_DEREF)
      | Some nxt_vcpu \<Rightarrow>
          if state (deref s nxt_vcpu) \<noteq> VMM_VCPU_STATE_READY \<and> n \<noteq> vcpu_current s
          then (case next_index s n of
                  Inl e \<Rightarrow> Some (Inl e)
                | Inr next' \<Rightarrow> loop s next')
          else Some (Inr nxt_vcpu)) = Some y"
  show "\<not> ((\<forall>i. 0 \<le> i \<and> i < vmm_manager_vcpu_count s \<longrightarrow> \<not> probe_stops s i) \<and>
            0 \<le> n \<and> n < vmm_manager_vcpu_count s)"
  proof
    assume a: "(\<forall>i. 0 \<le> i \<and> i < vmm_manager_vcpu_count s \<longrightarrow> \<not> probe_stops s i) \<and>
            0 \<le> n \<and> n < vmm_manager_vcpu_count s"
    then have "\<not> probe_stops s n" by blast
    with a body have "loop s ((n + 1) mod vmm_manager_vcpu_count s) = Some y"
      by (simp add: vmm_manager_vcpu_def next_index_def probe_stops_def split: if_splits)
    from IH[OF this] a show False by simp
  qed
qed

lemma next_loop_diverges:
  assumes "\<forall>i. 0 \<le> i \<and> i < vmm_manager_vcpu_count s \<longrightarrow> \<not> probe_stops s i"
    and "0 \<le> n" "n < vmm_manager_vcpu_count s"
  shows "vmm_scheduler_next_loop s n = None"
  using next_loop_no_result [of s n] assms by (cases "vmm_scheduler_next_loop s n") auto

subsection \<open>Calls made by the dispatcher\<close>

lemma context_switch_calls:
  "\<exists>cs. calls (context_switch c n s) = calls s @ cs \<and>
        (\<forall>x \<in> set cs. \<exists>f t. x = VCPU_REGS_SWITCH f t) \<and> length cs \<le> 1"
  by (simp add: context_switch_def vmm_vcpu_regs_switch_def ptr_defs split: option.splits)

lemma make_current_calls: "calls (make_current n s) = calls s"
  by (simp add: make_current_def ptr_defs Let_def)

lemma vmm_scheduler_next_calls:
  assumes "vmm_scheduler_next s = Some (Inr s')"
  shows "\<exists>cs. calls s' = calls s @ cs \<and>
           (\<forall>x \<in> set cs. \<exists>f t. x = VCPU_REGS_SWITCH f t) \<and> length cs \<le> 1"
  using assms context_switch_calls
  by (auto simp: vmm_scheduler_next_def Let_def make_current_calls
           split: sum.splits option.splits)

subsection \<open>Termination of the dispatcher\<close>

lemma next_hangs:
  assumes "vmm_manager_vcpu s (vcpu_current s) = None"
    and "vcpus s \<noteq> []"
    and "\<forall>v \<in> set (vcpus s). state v \<noteq> VMM_VCPU_STATE_READY"
  shows "vmm_scheduler_next s = None"
proof -
  let ?N = "vmm_manager_vcpu_count s"
  have N: "0 < ?N" using assms(2) by (simp add: vmm_manager_vcpu_count_def)
  have "\<not> probe_stops s i" if "0 \<le> i \<and> i < ?N" for i
  proof -
    from that have "nat i < length (vcpus s)"
      by (auto simp: vmm_manager_vcpu_count_def nat_less_iff)
    then have "state (vcpus s ! nat i) \<noteq> VMM_VCPU_STATE_READY"
      using assms(3) by simp
    moreover have "i \<noteq> vcpu_current s"
      using assms(1) that by (auto simp: vmm_manager_vcpu_def split: if_splits)
    ultimately show ?thesis by (simp add: probe_stops_def deref_def)
  qed
  then have "vmm_scheduler_next_loop s 0 = None"
    using N by (intro next_loop_diverges) auto
  then show ?thesis
    using assms(1) N by (simp add: vmm_scheduler_next_def next_index_def)
qed

text \<open>
  C4. The loop of the dispatcher does not terminate in every state with a non-empty
  registry. The exit test compares \<open>next\<close> with \<open>sched.vcpu_current\<close>, which is \<open>-1\<close>
  when there is no current vcpu, and \<open>next\<close> stays within the registry: with no Ready
  vcpu the loop never exits. Here the registry holds one vcpu in state Reset and the
  scheduler has just been initialized; the first dispatch has no result.
\<close>

theorem next_hangs_after_init:
  "vmm_scheduler_next
     (snd (vmm_scheduler_init (Some 0) 1
        \<lparr>vcpu_current = 0, ev = None, vcpus = [vcpu_at 0 VMM_VCPU_STATE_RESET],
         calls = []\<rparr>)) = None"
  by (rule next_hangs) (simp_all add: vmm_scheduler_init_def ptr_defs example_defs)

text \<open>
  If some candidate passes the exit test, the loop returns the first one in probing order.
\<close>

lemma next_loop_returns:
  assumes "0 \<le> n" "n < vmm_manager_vcpu_count s"
    and "0 \<le> t" "t < vmm_manager_vcpu_count s" "probe_stops s t"
  shows "\<exists>j. vmm_scheduler_next_loop s n =
               Some (Inr (nat ((n + int j) mod vmm_manager_vcpu_count s))) \<and>
             probe_stops s ((n + int j) mod vmm_manager_vcpu_count s) \<and>
             (\<forall>i<j. \<not> probe_stops s ((n + int i) mod vmm_manager_vcpu_count s))"
proof -
  let ?N = "vmm_manager_vcpu_count s"
  define d where "d = nat ((t - n) mod ?N)"
  have "(n + int d) mod ?N = t"
    using assms by (simp add: d_def mod_add_right_eq)
  then have "\<exists>j. probe_stops s ((n + int j) mod ?N)"
    using assms(5) by auto
  then obtain j where j: "probe_stops s ((n + int j) mod ?N)"
    "\<forall>i<j. \<not> probe_stops s ((n + int i) mod ?N)"
    using exists_least_iff [of "\<lambda>j. probe_stops s ((n + int j) mod ?N)"] by blast
  have "vmm_scheduler_next_loop s n = Some (Inr (nat ((n + int j) mod ?N)))"
    using assms(1,2) j by (intro next_loop_found) auto
  with j show ?thesis by blast
qed

lemma next_returns:
  assumes "0 \<le> t" "t < vmm_manager_vcpu_count s" "probe_stops s t"
  shows "\<exists>p. p < length (vcpus s) \<and> probe_stops s (int p) \<and>
    vmm_scheduler_next s =
      Some (Inr (make_current p
        (context_switch (vmm_manager_vcpu s (vcpu_current s)) p s)))"
proof -
  let ?N = "vmm_manager_vcpu_count s"
  let ?n = "((case vmm_manager_vcpu s (vcpu_current s) of
               Some c \<Rightarrow> num (deref s c) | None \<Rightarrow> - 1) + 1) mod ?N"
  from assms have N: "0 < ?N" by simp
  then have "0 \<le> ?n" "?n < ?N" by simp_all
  from next_loop_returns [OF this assms] obtain j
    where j: "vmm_scheduler_next_loop s ?n = Some (Inr (nat ((?n + int j) mod ?N)))"
      "probe_stops s ((?n + int j) mod ?N)"
    by blast
  let ?p = "nat ((?n + int j) mod ?N)"
  have "?p < length (vcpus s)"
    using N by (simp add: vmm_manager_vcpu_count_def nat_less_iff)
  moreover have "probe_stops s (int ?p)" using j(2) N by simp
  moreover have "vmm_scheduler_next s =
      Some (Inr (make_current ?p
        (context_switch (vmm_manager_vcpu s (vcpu_current s)) ?p s)))"
    using j(1) N by (simp add: vmm_scheduler_next_def next_index_def Let_def)
  ultimately show ?thesis by blast
qed

lemma next_returns_with_current:
  assumes "vmm_manager_vcpu s (vcpu_current s) = Some c"
  shows "\<exists>s'. vmm_scheduler_next s = Some (Inr s')"
proof -
  from assms have "0 \<le> vcpu_current s" "vcpu_current s < vmm_manager_vcpu_count s"
    by (auto simp: vmm_manager_vcpu_def split: if_splits)
  moreover have "probe_stops s (vcpu_current s)" by (simp add: probe_stops_def)
  ultimately show ?thesis using next_returns by blast
qed

lemma next_returns_with_ready:
  assumes "r < length (vcpus s)" "state (vcpus s ! r) = VMM_VCPU_STATE_READY"
  shows "\<exists>s'. vmm_scheduler_next s = Some (Inr s')"
proof -
  have "0 \<le> int r" "int r < vmm_manager_vcpu_count s"
    using assms(1) by (simp_all add: vmm_manager_vcpu_count_def)
  moreover have "probe_stops s (int r)"
    using assms(2) by (simp add: probe_stops_def deref_def)
  ultimately show ?thesis using next_returns by blast
qed

lemma can_dispatch_returns:
  assumes "can_dispatch s"
  shows "\<exists>s'. vmm_scheduler_next s = Some (Inr s')"
proof (cases "vmm_manager_vcpu s (vcpu_current s)")
  case (Some c)
  then show ?thesis by (rule next_returns_with_current)
next
  case None
  with assms obtain v where "v \<in> set (vcpus s)" "state v = VMM_VCPU_STATE_READY"
    by (auto simp: can_dispatch_def)
  then obtain r where "r < length (vcpus s)" "state (vcpus s ! r) = VMM_VCPU_STATE_READY"
    by (auto simp: in_set_conv_nth)
  then show ?thesis by (rule next_returns_with_ready)
qed

subsection \<open>The result of a dispatch\<close>

lemma registry_num:
  assumes "registry_ok s" "p < length (vcpus s)"
  shows "num (vcpus s ! p) = int p"
proof -
  have "map num (vcpus s) ! p = map int [0..<length (vcpus s)] ! p"
    using assms(1) by (simp add: registry_ok_def)
  with assms(2) show ?thesis by simp
qed

lemma nth_update_other_field:
  assumes "\<And>v. f (g v) = f v"
  shows "f (xs[c := g (xs ! c)] ! p) = f (xs ! p)"
proof (cases "c = p \<and> c < length xs")
  case True
  then show ?thesis by (simp add: assms)
next
  case False
  then show ?thesis by (cases "c = p") (simp_all add: list_update_beyond)
qed

lemma current_in_registry:
  "vmm_manager_vcpu s (vcpu_current s) = Some c \<Longrightarrow>
     c < length (vcpus s) \<and> vcpu_current s = int c"
  by (auto simp: ptr_defs nat_less_iff split: if_splits)

lemma context_switch_current [simp]:
  "vcpu_current (context_switch cur p s) = vcpu_current s"
  by (simp add: context_switch_def vmm_vcpu_regs_switch_def ptr_defs split: option.splits)

lemma context_switch_vcpus:
  "vcpus (context_switch cur p s) =
     (case cur of
        None \<Rightarrow> vcpus s
      | Some c \<Rightarrow>
          if num (vcpus s ! c) \<noteq> num (vcpus s ! p) \<and>
             state (vcpus s ! c) = VMM_VCPU_STATE_RUNNING
          then (vcpus s)[c := (vcpus s ! c)\<lparr>state := VMM_VCPU_STATE_READY\<rparr>]
          else vcpus s)"
  by (simp add: context_switch_def vmm_vcpu_regs_switch_def ptr_defs split: option.splits)

lemma make_current_eq:
  "p < length (vcpus s) \<Longrightarrow>
   make_current p s =
     s\<lparr>vcpus := (vcpus s)[p := (vcpus s ! p)
          \<lparr>tick_pending := tick_count (vcpus s ! p), state := VMM_VCPU_STATE_RUNNING\<rparr>],
       vcpu_current := num (vcpus s ! p)\<rparr>"
  by (simp add: make_current_def ptr_defs Let_def)

lemma next_result:
  assumes "vmm_scheduler_next s = Some (Inr s')"
  obtains p where "p < length (vcpus s)" "probe_stops s (int p)"
    "s' = make_current p (context_switch (vmm_manager_vcpu s (vcpu_current s)) p s)"
proof -
  let ?N = "vmm_manager_vcpu_count s"
  let ?n = "((case vmm_manager_vcpu s (vcpu_current s) of
               Some c \<Rightarrow> num (deref s c) | None \<Rightarrow> - 1) + 1) mod ?N"
  have N: "0 < ?N"
    using assms
    by (cases "?N = 0") (simp_all add: vmm_scheduler_next_def next_index_def
          vmm_manager_vcpu_count_def)
  have "\<exists>t. 0 \<le> t \<and> t < ?N \<and> probe_stops s t"
  proof (rule ccontr)
    assume "\<not> (\<exists>t. 0 \<le> t \<and> t < ?N \<and> probe_stops s t)"
    then have "vmm_scheduler_next_loop s ?n = None"
      using N by (intro next_loop_diverges) auto
    with assms N show False
      by (simp add: vmm_scheduler_next_def next_index_def Let_def)
  qed
  then obtain t where "0 \<le> t" "t < ?N" "probe_stops s t" by blast
  from next_returns [OF this] assms that show ?thesis by auto
qed

text \<open>Facts for evaluating a dispatch on a concrete core.\<close>

lemmas dispatch_eval =
  vmm_scheduler_next_def next_index_def next_loop_unfold probe_stops_def make_current_def
  context_switch_def vmm_vcpu_regs_switch_def

lemma scenario_dispatch: "vmm_scheduler_next scenario = Some (Inr scenario_next)"
  by (simp add: dispatch_eval ptr_defs example_defs)

lemma next_postcondition:
  assumes "registry_ok s" and "vmm_scheduler_next s = Some (Inr s')"
  shows "\<exists>v. vmm_manager_vcpu s' (vcpu_current s') = Some v \<and>
             probe_stops s (int v) \<and>
             state (deref s' v) = VMM_VCPU_STATE_RUNNING \<and>
             tick_pending (deref s' v) = tick_count (deref s' v) \<and>
             tick_count (deref s' v) = tick_count (deref s v)"
proof -
  from next_result [OF assms(2)] obtain p where p: "p < length (vcpus s)"
    "probe_stops s (int p)"
    "s' = make_current p (context_switch (vmm_manager_vcpu s (vcpu_current s)) p s)"
    by blast
  let ?s1 = "context_switch (vmm_manager_vcpu s (vcpu_current s)) p s"
  have len: "length (vcpus ?s1) = length (vcpus s)"
    by (simp add: context_switch_vcpus split: option.splits)
  have nump: "num (vcpus ?s1 ! p) = int p"
    using registry_num [OF assms(1) p(1)]
    by (simp add: context_switch_vcpus nth_update_other_field [where f = num]
          split: option.splits)
  have tc: "tick_count (vcpus ?s1 ! p) = tick_count (vcpus s ! p)"
    by (simp add: context_switch_vcpus nth_update_other_field [where f = tick_count]
          split: option.splits)
  have s': "s' = ?s1\<lparr>vcpus := (vcpus ?s1)[p := (vcpus ?s1 ! p)
          \<lparr>tick_pending := tick_count (vcpus ?s1 ! p), state := VMM_VCPU_STATE_RUNNING\<rparr>],
       vcpu_current := int p\<rparr>"
    using p(1,3) len nump by (simp add: make_current_eq)
  have "vmm_manager_vcpu s' (vcpu_current s') = Some p"
    using p(1) len by (subst (1 2) s') (simp add: ptr_defs)
  moreover have "state (deref s' p) = VMM_VCPU_STATE_RUNNING"
    "tick_pending (deref s' p) = tick_count (deref s' p)"
    "tick_count (deref s' p) = tick_count (deref s p)"
    using p(1) len tc by (subst s', simp add: ptr_defs)+
  ultimately show ?thesis using p(2) by blast
qed

text \<open>
  C3. With a well-formed registry, in every state in which the search can end (a current
  vcpu, or some Ready vcpu) \<open>vmm_scheduler_next\<close> returns, and the vcpu \<open>v\<close> it selected
  (a candidate that passed the exit test of the loop) is the one named by
  \<open>sched.vcpu_current\<close> afterwards; its state is Running and its \<open>tick_pending\<close>
  equals its \<open>tick_count\<close>, which the dispatch did not change.
\<close>

theorem dispatch_postcondition:
  assumes "registry_ok s" and "can_dispatch s"
  shows "\<exists>s' v. vmm_scheduler_next s = Some (Inr s') \<and>
             vmm_manager_vcpu s' (vcpu_current s') = Some v \<and>
             probe_stops s (int v) \<and>
             state (deref s' v) = VMM_VCPU_STATE_RUNNING \<and>
             tick_pending (deref s' v) = tick_count (deref s' v) \<and>
             tick_count (deref s' v) = tick_count (deref s v)"
proof -
  from can_dispatch_returns [OF assms(2)] obtain s'
    where "vmm_scheduler_next s = Some (Inr s')" by blast
  with next_postcondition [OF assms(1) this] show ?thesis by blast
qed

text \<open>In the scenario of the spec the dispatch selects B.\<close>

theorem dispatch_postcondition_witness:
  "vmm_scheduler_next scenario = Some (Inr scenario_next) \<and>
   vmm_manager_vcpu scenario_next (vcpu_current scenario_next) = Some 1 \<and>
   probe_stops scenario 1 \<and>
   state (deref scenario_next 1) = VMM_VCPU_STATE_RUNNING \<and>
   tick_pending (deref scenario_next 1) = tick_count (deref scenario_next 1) \<and>
   tick_count (deref scenario_next 1) = tick_count (deref scenario 1)"
proof -
  have "registry_ok scenario" "can_dispatch scenario"
    by (simp_all add: registry_ok_def can_dispatch_def ptr_defs example_defs)
  from dispatch_postcondition [OF this] obtain s' v
    where r: "vmm_scheduler_next scenario = Some (Inr s')"
      "vmm_manager_vcpu s' (vcpu_current s') = Some v"
      "probe_stops scenario (int v)"
      "state (deref s' v) = VMM_VCPU_STATE_RUNNING"
      "tick_pending (deref s' v) = tick_count (deref s' v)"
      "tick_count (deref s' v) = tick_count (deref scenario v)"
    by blast
  from r(1) have s': "s' = scenario_next" by (simp add: scenario_dispatch)
  with r(2) have "v = 1" by (simp add: scenario_next_def ptr_defs)
  with r s' show ?thesis by simp
qed

lemma context_switch_length [simp]:
  "length (vcpus (context_switch cur p s)) = length (vcpus s)"
  by (simp add: context_switch_vcpus split: option.splits)

lemma context_switch_num [simp]:
  "num (vcpus (context_switch cur p s) ! i) = num (vcpus s ! i)"
  by (simp add: context_switch_vcpus nth_update_other_field [where f = num]
        split: option.splits)

lemma dispatch_current:
  assumes "registry_ok s" "p < length (vcpus s)"
  shows "vcpu_current (make_current p (context_switch cur p s)) = int p"
    and "length (vcpus (make_current p (context_switch cur p s))) = length (vcpus s)"
    and "vmm_manager_vcpu (make_current p (context_switch cur p s)) (int p) = Some p"
    and "calls (make_current p (context_switch cur p s)) = calls (context_switch cur p s)"
  using assms registry_num [OF assms]
  by (simp_all add: make_current_eq ptr_defs)

lemma dispatch_vcpus:
  assumes "p < length (vcpus s)"
  shows "vcpus (make_current p (context_switch cur p s)) =
           (vcpus (context_switch cur p s))[p := (vcpus (context_switch cur p s) ! p)
              \<lparr>tick_pending := tick_count (vcpus (context_switch cur p s) ! p),
               state := VMM_VCPU_STATE_RUNNING\<rparr>]"
  using assms by (simp add: make_current_eq)

text \<open>
  C10. With a well-formed registry and a current vcpu \<open>c\<close>, when no other vcpu is Ready
  the search comes back to \<open>c\<close>: \<open>vmm_scheduler_next\<close> returns, sets the state of \<open>c\<close>
  to Running and reloads its \<open>tick_pending\<close> from \<open>tick_count\<close>, whatever the state
  of \<open>c\<close> was (Paused, Halted and Reset included). Nothing else changes: the call log is
  as before, so there is no register exchange.
\<close>

theorem dispatch_fallback:
  assumes "registry_ok s"
    and "vmm_manager_vcpu s (vcpu_current s) = Some c"
    and "\<forall>i<length (vcpus s). i \<noteq> c \<longrightarrow> state (vcpus s ! i) \<noteq> VMM_VCPU_STATE_READY"
  shows "vmm_scheduler_next s =
           Some (Inr (s\<lparr>vcpus := (vcpus s)[c := (vcpus s ! c)
                        \<lparr>tick_pending := tick_count (vcpus s ! c),
                         state := VMM_VCPU_STATE_RUNNING\<rparr>]\<rparr>))"
proof -
  note cur = current_in_registry [OF assms(2)]
  have "0 \<le> vcpu_current s" "vcpu_current s < vmm_manager_vcpu_count s"
    "probe_stops s (vcpu_current s)"
    using cur by (simp_all add: probe_stops_def vmm_manager_vcpu_count_def)
  from next_returns [OF this] obtain p where p: "p < length (vcpus s)"
    "probe_stops s (int p)"
    "vmm_scheduler_next s = Some (Inr (make_current p (context_switch (Some c) p s)))"
    using assms(2) by auto
  have "p = c"
    using p(1,2) assms(3) cur by (auto simp: probe_stops_def deref_def)
  moreover have "context_switch (Some c) c s = s"
    by (simp add: context_switch_def deref_def)
  moreover have "num (vcpus s ! c) = vcpu_current s"
    using registry_num [OF assms(1)] cur by simp
  ultimately show ?thesis
    using p(3) cur by (simp add: make_current_eq)
qed

text \<open>
  The current vcpu is Paused and the two others are Reset and Halted: the dispatch makes
  the current vcpu Running.
\<close>

theorem dispatch_fallback_witness:
  "vmm_scheduler_next
     (core_with 1 [vcpu_at 0 VMM_VCPU_STATE_RESET, vcpu_at 1 VMM_VCPU_STATE_PAUSED,
                   vcpu_at 2 VMM_VCPU_STATE_HALTED]) =
   Some (Inr (core_with 1 [vcpu_at 0 VMM_VCPU_STATE_RESET, vcpu_at 1 VMM_VCPU_STATE_RUNNING,
                           vcpu_at 2 VMM_VCPU_STATE_HALTED]))"
  using dispatch_fallback [of "core_with 1 [vcpu_at 0 VMM_VCPU_STATE_RESET,
      vcpu_at 1 VMM_VCPU_STATE_PAUSED, vcpu_at 2 VMM_VCPU_STATE_HALTED]" 1]
  by (simp add: registry_ok_def ptr_defs example_defs less_Suc_eq numeral_3_eq_3)

lemma next_switch_policy:
  assumes "registry_ok s" and "vmm_scheduler_next s = Some (Inr s')"
  shows "\<exists>nxt. vmm_manager_vcpu s' (vcpu_current s') = Some nxt \<and>
     (case vmm_manager_vcpu s (vcpu_current s) of
        None \<Rightarrow> calls s' = calls s @ [VCPU_REGS_SWITCH None (deref s nxt)]
      | Some cur \<Rightarrow>
          if nxt = cur then calls s' = calls s
          else if state (deref s cur) = VMM_VCPU_STATE_RUNNING then
            calls s' = calls s @
              [VCPU_REGS_SWITCH (Some ((deref s cur)\<lparr>state := VMM_VCPU_STATE_READY\<rparr>))
                 (deref s nxt)] \<and>
            state (deref s' cur) = VMM_VCPU_STATE_READY
          else if state (deref s cur) = VMM_VCPU_STATE_READY then
            calls s' = calls s @ [VCPU_REGS_SWITCH (Some (deref s cur)) (deref s nxt)] \<and>
            state (deref s' cur) = VMM_VCPU_STATE_READY
          else
            calls s' = calls s @ [VCPU_REGS_SWITCH None (deref s nxt)] \<and>
            state (deref s' cur) = state (deref s cur))"
proof -
  from next_result [OF assms(2)] obtain p where p: "p < length (vcpus s)"
    "s' = make_current p (context_switch (vmm_manager_vcpu s (vcpu_current s)) p s)"
    by blast
  note d = dispatch_current [OF assms(1) p(1), of "vmm_manager_vcpu s (vcpu_current s)"]
  have nxt: "vmm_manager_vcpu s' (vcpu_current s') = Some p"
    using d(1,3) p(2) by simp
  have "case vmm_manager_vcpu s (vcpu_current s) of
        None \<Rightarrow> calls s' = calls s @ [VCPU_REGS_SWITCH None (deref s p)]
      | Some cur \<Rightarrow>
          if p = cur then calls s' = calls s
          else if state (deref s cur) = VMM_VCPU_STATE_RUNNING then
            calls s' = calls s @
              [VCPU_REGS_SWITCH (Some ((deref s cur)\<lparr>state := VMM_VCPU_STATE_READY\<rparr>))
                 (deref s p)] \<and>
            state (deref s' cur) = VMM_VCPU_STATE_READY
          else if state (deref s cur) = VMM_VCPU_STATE_READY then
            calls s' = calls s @ [VCPU_REGS_SWITCH (Some (deref s cur)) (deref s p)] \<and>
            state (deref s' cur) = VMM_VCPU_STATE_READY
          else
            calls s' = calls s @ [VCPU_REGS_SWITCH None (deref s p)] \<and>
            state (deref s' cur) = state (deref s cur)"
  proof (cases "vmm_manager_vcpu s (vcpu_current s)")
    case None
    then show ?thesis
      using p(2) d(4) by (simp add: context_switch_def vmm_vcpu_regs_switch_def ptr_defs)
  next
    case (Some c)
    note cur = current_in_registry [OF Some]
    have nums: "num (vcpus s ! c) = int c" "num (vcpus s ! p) = int p"
      using registry_num [OF assms(1)] cur p(1) by simp_all
    show ?thesis
    proof (cases "p = c")
      case True
      then show ?thesis
        using Some p(2) d(4) by (simp add: context_switch_def ptr_defs)
    next
      case False
      have cs: "calls s' = calls (context_switch (Some c) p s)"
        using p(2) d(4) Some by simp
      have st: "state (deref s' c) = state (vcpus (context_switch (Some c) p s) ! c)"
        using False p Some by (simp add: deref_def dispatch_vcpus)
      show ?thesis
        using Some False nums cur p(1) cs st
        by (cases "state (vcpus s ! c)")
           (simp_all add: context_switch_def vmm_vcpu_regs_switch_def ptr_defs)
    qed
  qed
  with nxt show ?thesis by blast
qed

text \<open>
  C2. With a well-formed registry, in every state in which the search can end,
  \<open>vmm_scheduler_next\<close> returns with some \<open>nxt\<close> selected, and: without a current vcpu
  there is one register exchange, with no source. With a current vcpu \<open>cur\<close> there is
  no exchange when \<open>nxt\<close> is \<open>cur\<close>, and exactly one otherwise: if \<open>cur\<close> was Running it has been demoted to Ready before the exchange and
  is its source; if it was Ready it is the source as it is; if it was Paused, Halted or
  Reset the exchange has no source and the state of \<open>cur\<close> is kept.
\<close>

theorem dispatch_switch_policy:
  assumes "registry_ok s" and "can_dispatch s"
  shows "\<exists>s' nxt. vmm_scheduler_next s = Some (Inr s') \<and>
     vmm_manager_vcpu s' (vcpu_current s') = Some nxt \<and>
     (case vmm_manager_vcpu s (vcpu_current s) of
        None \<Rightarrow> calls s' = calls s @ [VCPU_REGS_SWITCH None (deref s nxt)]
      | Some cur \<Rightarrow>
          if nxt = cur then calls s' = calls s
          else if state (deref s cur) = VMM_VCPU_STATE_RUNNING then
            calls s' = calls s @
              [VCPU_REGS_SWITCH (Some ((deref s cur)\<lparr>state := VMM_VCPU_STATE_READY\<rparr>))
                 (deref s nxt)] \<and>
            state (deref s' cur) = VMM_VCPU_STATE_READY
          else if state (deref s cur) = VMM_VCPU_STATE_READY then
            calls s' = calls s @ [VCPU_REGS_SWITCH (Some (deref s cur)) (deref s nxt)] \<and>
            state (deref s' cur) = VMM_VCPU_STATE_READY
          else
            calls s' = calls s @ [VCPU_REGS_SWITCH None (deref s nxt)] \<and>
            state (deref s' cur) = state (deref s cur))"
proof -
  from can_dispatch_returns [OF assms(2)] obtain s'
    where "vmm_scheduler_next s = Some (Inr s')" by blast
  with next_switch_policy [OF assms(1) this] show ?thesis by blast
qed

text \<open>
  In the scenario of the spec A is Running and current: it is demoted to Ready and is the
  source of the exchange towards B.
\<close>

theorem dispatch_switch_policy_witness:
  "vmm_scheduler_next scenario = Some (Inr scenario_next) \<and>
   vmm_manager_vcpu scenario (vcpu_current scenario) = Some 0 \<and>
   vmm_manager_vcpu scenario_next (vcpu_current scenario_next) = Some 1 \<and>
   state (deref scenario 0) = VMM_VCPU_STATE_RUNNING \<and>
   calls scenario_next = calls scenario @
     [VCPU_REGS_SWITCH (Some ((deref scenario 0)\<lparr>state := VMM_VCPU_STATE_READY\<rparr>))
        (deref scenario 1)] \<and>
   state (deref scenario_next 0) = VMM_VCPU_STATE_READY"
proof -
  have "registry_ok scenario" "can_dispatch scenario"
    by (simp_all add: registry_ok_def can_dispatch_def ptr_defs example_defs)
  from dispatch_switch_policy [OF this] obtain s' nxt
    where r: "vmm_scheduler_next scenario = Some (Inr s')"
      "vmm_manager_vcpu s' (vcpu_current s') = Some nxt"
      "(case vmm_manager_vcpu scenario (vcpu_current scenario) of
        None \<Rightarrow> calls s' = calls scenario @ [VCPU_REGS_SWITCH None (deref scenario nxt)]
      | Some cur \<Rightarrow>
          if nxt = cur then calls s' = calls scenario
          else if state (deref scenario cur) = VMM_VCPU_STATE_RUNNING then
            calls s' = calls scenario @
              [VCPU_REGS_SWITCH (Some ((deref scenario cur)\<lparr>state := VMM_VCPU_STATE_READY\<rparr>))
                 (deref scenario nxt)] \<and>
            state (deref s' cur) = VMM_VCPU_STATE_READY
          else if state (deref scenario cur) = VMM_VCPU_STATE_READY then
            calls s' = calls scenario @
              [VCPU_REGS_SWITCH (Some (deref scenario cur)) (deref scenario nxt)] \<and>
            state (deref s' cur) = VMM_VCPU_STATE_READY
          else
            calls s' = calls scenario @ [VCPU_REGS_SWITCH None (deref scenario nxt)] \<and>
            state (deref s' cur) = state (deref scenario cur))"
    by blast
  from r(1) have s': "s' = scenario_next" by (simp add: scenario_dispatch)
  with r(2) have nxt: "nxt = 1" by (simp add: scenario_next_def ptr_defs)
  have cur: "vmm_manager_vcpu scenario (vcpu_current scenario) = Some 0"
    "state (deref scenario 0) = VMM_VCPU_STATE_RUNNING"
    by (simp_all add: ptr_defs example_defs)
  from r(3) have "calls scenario_next = calls scenario @
     [VCPU_REGS_SWITCH (Some ((deref scenario 0)\<lparr>state := VMM_VCPU_STATE_READY\<rparr>))
        (deref scenario 1)] \<and>
   state (deref scenario_next 0) = VMM_VCPU_STATE_READY"
    unfolding s' nxt cur(1) using cur(2) by simp
  with r(1,2) cur show ?thesis unfolding s' nxt by simp
qed

subsection \<open>The order of selection and round robin\<close>

text \<open>Arithmetic of the probing order.\<close>

lemma probe_reach:
  fixes c x N :: int
  assumes "0 \<le> x" "x < N"
  shows "((c + 1) mod N + (x - c - 1) mod N) mod N = x"
proof -
  have "((c + 1) mod N + (x - c - 1) mod N) mod N = ((c + 1) + (x - c - 1)) mod N"
    by (rule mod_add_eq)
  also have "\<dots> = x" using assms by simp
  finally show ?thesis .
qed

lemma probe_dist_of_candidate:
  fixes c i N :: int
  assumes "0 \<le> i" "i < N"
  shows "(((c + 1) mod N + i) mod N - c - 1) mod N = i"
proof -
  have "(((c + 1) mod N + i) mod N - (c + 1)) mod N = (((c + 1) mod N + i) - (c + 1)) mod N"
    by (rule mod_diff_left_eq)
  also have "\<dots> = ((c + 1) mod N + (i - (c + 1))) mod N" by (simp add: algebra_simps)
  also have "\<dots> = ((c + 1) + (i - (c + 1))) mod N" by (rule mod_add_left_eq)
  also have "\<dots> = i" using assms by simp
  finally show ?thesis by (simp add: algebra_simps)
qed

lemma probe_dist_shift:
  fixes c x u N :: int
  assumes "0 \<le> u" "u < N" "(u - c - 1) mod N < (x - c - 1) mod N"
  shows "(x - u - 1) mod N = (x - c - 1) mod N - (u - c - 1) mod N - 1"
proof -
  have N: "0 < N" using assms by simp
  have "(x - u - 1) mod N = ((x - c - 1) - (u - c - 1) - 1) mod N" by (simp add: algebra_simps)
  also have "\<dots> = ((x - c - 1) mod N - (u - c - 1) mod N - 1) mod N"
    by (metis (no_types) mod_diff_eq mod_diff_left_eq)
  also have "\<dots> = (x - c - 1) mod N - (u - c - 1) mod N - 1"
  proof (rule mod_pos_pos_trivial)
    show "0 \<le> (x - c - 1) mod N - (u - c - 1) mod N - 1" using assms(3) by simp
    have "(x - c - 1) mod N < N" "0 \<le> (u - c - 1) mod N" using N by simp_all
    then show "(x - c - 1) mod N - (u - c - 1) mod N - 1 < N" by linarith
  qed
  finally show ?thesis .
qed

lemma probe_dist_inj:
  fixes c x y N :: int
  assumes "0 \<le> x" "x < N" "0 \<le> y" "y < N" "(x - c - 1) mod N = (y - c - 1) mod N"
  shows "x = y"
proof -
  have "x = ((c + 1) mod N + (x - c - 1) mod N) mod N"
    by (rule probe_reach [OF assms(1,2), symmetric])
  also have "\<dots> = ((c + 1) mod N + (y - c - 1) mod N) mod N"
    by (simp only: assms(5))
  also have "\<dots> = y" by (rule probe_reach [OF assms(3,4)])
  finally show ?thesis .
qed

lemma start_of_probe:
  assumes "registry_ok s"
  shows "(case vmm_manager_vcpu s (vcpu_current s) of
            Some c \<Rightarrow> num (deref s c) | None \<Rightarrow> - 1) =
         (if 0 \<le> vcpu_current s \<and> vcpu_current s < vmm_manager_vcpu_count s
          then vcpu_current s else - 1)"
proof (cases "vmm_manager_vcpu s (vcpu_current s)")
  case None
  then show ?thesis by (simp add: vmm_manager_vcpu_def split: if_splits)
next
  case (Some c)
  note cur = current_in_registry [OF Some]
  with registry_num [OF assms, of c] Some show ?thesis
    by (simp add: deref_def vmm_manager_vcpu_count_def)
qed

lemma dispatch_num:
  assumes "p < length (vcpus s)"
  shows "num (vcpus (make_current p (context_switch cur p s)) ! i) = num (vcpus s ! i)"
  using assms by (cases "i = p") (simp_all add: dispatch_vcpus)

lemma dispatch_registry_ok:
  assumes "registry_ok s" "p < length (vcpus s)"
  shows "registry_ok (make_current p (context_switch cur p s))"
proof -
  have "map num (vcpus (make_current p (context_switch cur p s))) = map num (vcpus s)"
    using assms(2)
    by (intro nth_equalityI)
       (simp_all add: dispatch_num dispatch_current(2) [OF assms])
  with assms(1) show ?thesis
    by (simp add: registry_ok_def dispatch_current(2) [OF assms])
qed

lemma dispatch_state:
  assumes "registry_ok s" "p < length (vcpus s)" "i < length (vcpus s)"
  shows "state (vcpus (make_current p
             (context_switch (vmm_manager_vcpu s (vcpu_current s)) p s)) ! i) =
         (if i = p then VMM_VCPU_STATE_RUNNING
          else if vcpu_current s = int i \<and> state (vcpus s ! i) = VMM_VCPU_STATE_RUNNING
               then VMM_VCPU_STATE_READY
               else state (vcpus s ! i))"
proof (cases "vmm_manager_vcpu s (vcpu_current s)")
  case None
  then have "vcpu_current s \<noteq> int i"
    using assms(3) by (auto simp: ptr_defs split: if_splits)
  with None assms(2,3) show ?thesis
    by (simp add: dispatch_vcpus context_switch_vcpus nth_list_update)
next
  case (Some c)
  note cur = current_in_registry [OF Some]
  have "num (vcpus s ! c) = int c" "num (vcpus s ! p) = int p"
    using registry_num [OF assms(1)] cur assms(2) by simp_all
  with Some cur assms(2,3) show ?thesis
    by (auto simp: dispatch_vcpus context_switch_vcpus nth_list_update)
qed

text \<open>
  One dispatch selects the vcpu of \<open>U\<close> that is probed first, and the invariant holds
  again for the rest of \<open>U\<close>: a current vcpu that is demoted to Ready is probed last.
\<close>

lemma dispatch_step:
  assumes tv: "to_visit s U" and ne: "U \<noteq> {}" and fin: "finite U"
  shows "\<exists>s'. vmm_scheduler_next s = Some (Inr s') \<and> vcpu_current s' \<in> U \<and>
              to_visit s' (U - {vcpu_current s'})"
proof -
  let ?N = "vmm_manager_vcpu_count s"
  let ?R = "\<lambda>t y. state (deref t (nat y)) = VMM_VCPU_STATE_READY"
  define c where "c = (if 0 \<le> vcpu_current s \<and> vcpu_current s < ?N
                       then vcpu_current s else - 1)"
  from tv have ok: "registry_ok s"
    and inU: "\<And>u. u \<in> U \<Longrightarrow> 0 \<le> u \<and> u < ?N \<and> ?R s u"
    and later: "\<And>y u. 0 \<le> y \<Longrightarrow> y < ?N \<Longrightarrow> ?R s y \<Longrightarrow> y \<notin> U \<Longrightarrow> u \<in> U \<Longrightarrow>
                  probe_dist s u < probe_dist s y"
    by (auto simp: to_visit_def)
  have D: "probe_dist s x = (x - c - 1) mod ?N" for x
    by (simp add: probe_dist_def start_of_probe [OF ok] c_def)
  from ne inU have N: "0 < ?N" by fastforce
  have Dbound: "0 \<le> probe_dist s x" "probe_dist s x < ?N" for x
    using N by (simp_all add: D)
  obtain u where u: "u \<in> U" "\<And>v. v \<in> U \<Longrightarrow> probe_dist s u \<le> probe_dist s v"
  proof -
    have "finite (probe_dist s ` U)" "probe_dist s ` U \<noteq> {}" using fin ne by auto
    then have "Min (probe_dist s ` U) \<in> probe_dist s ` U" by (rule Min_in)
    then obtain u where "u \<in> U" "probe_dist s u = Min (probe_dist s ` U)" by auto
    moreover have "Min (probe_dist s ` U) \<le> probe_dist s v" if "v \<in> U" for v
      using fin that by simp
    ultimately show ?thesis by (intro that [of u]) auto
  qed
  note uR = inU [OF u(1)]
  define j where "j = nat (probe_dist s u)"
  let ?n = "(c + 1) mod ?N"
  have ju: "int j = probe_dist s u" using Dbound by (simp add: j_def)
  have reach: "(?n + int j) mod ?N = u"
    using probe_reach [of u ?N c] uR by (simp add: ju D)
  have before: "\<forall>i<j. \<not> probe_stops s ((?n + int i) mod ?N)"
  proof (intro allI impI)
    fix i assume ij: "i < j"
    let ?x = "(?n + int i) mod ?N"
    have x: "0 \<le> ?x" "?x < ?N" using N by simp_all
    have "int i < ?N" using ij ju Dbound [of u] by simp
    then have Dx: "probe_dist s ?x = int i"
      using probe_dist_of_candidate [of "int i" ?N c] by (simp add: D)
    have "\<not> ?R s ?x"
    proof
      assume r: "?R s ?x"
      show False
      proof (cases "?x \<in> U")
        case True
        from u(2) [OF True] Dx ij ju show False by simp
      next
        case False
        from later [OF x r False u(1)] Dx ij ju show False by simp
      qed
    qed
    moreover have "?x \<noteq> vcpu_current s"
    proof
      assume e: "?x = vcpu_current s"
      with x have "c = ?x" by (simp add: c_def)
      then have "probe_dist s ?x = (- 1) mod ?N" by (simp add: D)
      also have "\<dots> = ?N - 1" using N by (simp add: zmod_minus1)
      finally show False using Dx ij ju Dbound [of u] by simp
    qed
    ultimately show "\<not> probe_stops s ?x" by (simp add: probe_stops_def)
  qed
  have stop: "probe_stops s ((?n + int j) mod ?N)"
    using reach uR by (simp add: probe_stops_def)
  have "0 \<le> ?n" "?n < ?N" using N by simp_all
  from next_loop_found [OF this before stop]
  have loop: "vmm_scheduler_next_loop s ?n = Some (Inr (nat u))" by (simp add: reach)
  let ?p = "nat u"
  let ?s' = "make_current ?p (context_switch (vmm_manager_vcpu s (vcpu_current s)) ?p s)"
  have p: "?p < length (vcpus s)" "int ?p = u"
    using uR by (simp_all add: vmm_manager_vcpu_count_def nat_less_iff)
  have ret: "vmm_scheduler_next s = Some (Inr ?s')"
    using loop N by (simp add: vmm_scheduler_next_def next_index_def Let_def
        start_of_probe [OF ok] c_def [symmetric])
  have cur': "vcpu_current ?s' = u"
    using dispatch_current(1) [OF ok p(1)] p(2) by simp
  have ok': "registry_ok ?s'" by (rule dispatch_registry_ok [OF ok p(1)])
  have cnt': "vmm_manager_vcpu_count ?s' = ?N"
    using dispatch_current(2) [OF ok p(1)] by (simp add: vmm_manager_vcpu_count_def)
  have D': "probe_dist ?s' x = (x - u - 1) mod ?N" for x
  proof -
    have "probe_dist ?s' x =
        (x - (if 0 \<le> vcpu_current ?s' \<and> vcpu_current ?s' < vmm_manager_vcpu_count ?s'
              then vcpu_current ?s' else - 1) - 1) mod vmm_manager_vcpu_count ?s'"
      by (simp only: probe_dist_def start_of_probe [OF ok'])
    then show ?thesis using uR by (simp add: cur' cnt')
  qed
  have st': "state (deref ?s' (nat y)) =
      (if y = u then VMM_VCPU_STATE_RUNNING
       else if vcpu_current s = y \<and> state (deref s (nat y)) = VMM_VCPU_STATE_RUNNING
            then VMM_VCPU_STATE_READY
            else state (deref s (nat y)))" if "0 \<le> y" "y < ?N" for y
  proof -
    from that have "nat y < length (vcpus s)"
      by (simp add: vmm_manager_vcpu_count_def nat_less_iff)
    from dispatch_state [OF ok p(1) this] that uR show ?thesis
      by (auto simp: deref_def)
  qed
  have shift: "probe_dist ?s' x = probe_dist s x - probe_dist s u - 1"
    if "probe_dist s u < probe_dist s x" for x
    using probe_dist_shift [of u ?N c x] uR that by (simp add: D D')
  have above: "probe_dist s u < probe_dist s v" if "v \<in> U - {u}" for v
  proof -
    from that have v: "v \<in> U" "v \<noteq> u" by auto
    have "probe_dist s v \<noteq> probe_dist s u"
      using probe_dist_inj [of v ?N u c] inU [OF v(1)] uR v(2) by (auto simp: D)
    with u(2) [OF v(1)] show ?thesis by simp
  qed
  have "to_visit ?s' (U - {u})"
    unfolding to_visit_def
  proof (intro conjI ballI allI impI)
    show "registry_ok ?s'" by fact
  next
    fix v assume v: "v \<in> U - {u}"
    then have vU: "v \<in> U" "v \<noteq> u" by auto
    note vR = inU [OF vU(1)]
    show "0 \<le> v" using vR by simp
    show "v < vmm_manager_vcpu_count ?s'" using vR by (simp add: cnt')
    show "?R ?s' v" using vR vU(2) by (simp add: st')
  next
    fix y v
    assume y: "0 \<le> y \<and> y < vmm_manager_vcpu_count ?s' \<and> ?R ?s' y \<and> y \<notin> U - {u}"
      and v: "v \<in> U - {u}"
    then have vU: "v \<in> U" "v \<noteq> u" by auto
    note vR = inU [OF vU(1)]
    from y have yr: "0 \<le> y" "y < ?N" "?R ?s' y" by (simp_all add: cnt')
    from yr have yu: "y \<noteq> u" by (auto simp: st')
    with y have ynU: "y \<notin> U" by simp
    have vy: "probe_dist s v < probe_dist s y"
    proof (cases "?R s y")
      case True
      from later [OF yr(1,2) True ynU vU(1)] show ?thesis .
    next
      case False
      with yr yu have yc: "vcpu_current s = y"
        "state (deref s (nat y)) = VMM_VCPU_STATE_RUNNING"
        by (auto simp: st' split: if_splits)
      with yr have "c = y" by (simp add: c_def)
      then have "probe_dist s y = (- 1) mod ?N" by (simp add: D)
      also have "\<dots> = ?N - 1" using N by (simp add: zmod_minus1)
      finally have Dy: "probe_dist s y = ?N - 1" .
      have "v \<noteq> y" using vR yc by auto
      then have "probe_dist s v \<noteq> probe_dist s y"
        using probe_dist_inj [of v ?N y c] vR yr by (auto simp: D)
      with Dy Dbound [of v] show ?thesis by simp
    qed
    from above [OF v] vy show "probe_dist ?s' v < probe_dist ?s' y"
      by (simp add: shift)
  qed
  with ret cur' u(1) show ?thesis by auto
qed

text \<open>
  Hence as many dispatches as \<open>U\<close> has members visit \<open>U\<close>, each member once.
\<close>

lemma dispatches_visit:
  assumes "to_visit s U" "finite U" "card U = k"
  shows "\<exists>sel s'. dispatches k s = Some (Inr (sel, s')) \<and> distinct sel \<and> set sel = U"
  using assms
proof (induction k arbitrary: s U)
  case 0
  then show ?case by simp
next
  case (Suc k)
  from Suc.prems have "U \<noteq> {}" by auto
  from dispatch_step [OF Suc.prems(1) this Suc.prems(2)] obtain s1
    where s1: "vmm_scheduler_next s = Some (Inr s1)" "vcpu_current s1 \<in> U"
      "to_visit s1 (U - {vcpu_current s1})"
    by blast
  have "card (U - {vcpu_current s1}) = k"
    using Suc.prems(2,3) s1(2) by simp
  from Suc.IH [OF s1(3) _ this] Suc.prems(2) obtain sel s'
    where sel: "dispatches k s1 = Some (Inr (sel, s'))" "distinct sel"
      "set sel = U - {vcpu_current s1}"
    by auto
  have "dispatches (Suc k) s = Some (Inr (vcpu_current s1 # sel, s'))"
    using s1(1) sel(1) by simp
  moreover have "distinct (vcpu_current s1 # sel)" using sel(2,3) by simp
  moreover have "set (vcpu_current s1 # sel) = U" using sel(3) s1(2) by auto
  ultimately show ?case by blast
qed

lemma set_ready_list:
  "set (ready_list s) =
     {i. 0 \<le> i \<and> i < vmm_manager_vcpu_count s \<and>
         state (deref s (nat i)) = VMM_VCPU_STATE_READY}"
  by (auto simp: ready_list_def vmm_manager_vcpu_count_def image_int_atLeastLessThan)

lemma to_visit_ready_list:
  "registry_ok s \<Longrightarrow> to_visit s (set (ready_list s))"
  by (auto simp: to_visit_def set_ready_list)

lemma probe_order_length: "length (probe_order s) = length (vcpus s)"
  by (simp add: probe_order_def vmm_manager_vcpu_count_def Let_def)

lemma probe_order_nth:
  assumes "registry_ok s" "i < length (vcpus s)"
  shows "probe_order s ! i =
      (((case vmm_manager_vcpu s (vcpu_current s) of
           Some c \<Rightarrow> num (deref s c) | None \<Rightarrow> - 1) + 1) mod vmm_manager_vcpu_count s
        + int i) mod vmm_manager_vcpu_count s"
proof -
  show "probe_order s ! i =
      (((case vmm_manager_vcpu s (vcpu_current s) of
           Some c \<Rightarrow> num (deref s c) | None \<Rightarrow> - 1) + 1) mod vmm_manager_vcpu_count s
        + int i) mod vmm_manager_vcpu_count s"
  proof (cases "vmm_manager_vcpu s (vcpu_current s)")
    case None
    with assms(2) show ?thesis
      by (simp add: probe_order_def vmm_manager_vcpu_count_def Let_def)
  next
    case (Some c)
    with registry_num [OF assms(1), of c] current_in_registry [OF Some] assms(2)
    show ?thesis
      by (simp add: probe_order_def vmm_manager_vcpu_count_def Let_def deref_def)
  qed
qed

lemma select_candidate_dispatch:
  assumes "registry_ok s" "select_candidate s = Some t"
  shows "\<exists>s'. vmm_scheduler_next s = Some (Inr s') \<and> vcpu_current s' = t"
proof -
  let ?N = "vmm_manager_vcpu_count s"
  let ?n = "((case vmm_manager_vcpu s (vcpu_current s) of
               Some c \<Rightarrow> num (deref s c) | None \<Rightarrow> - 1) + 1) mod ?N"
  have P: "(state (deref s (nat i)) = VMM_VCPU_STATE_READY \<or> i = vcpu_current s) =
           probe_stops s i" for i
    by (simp add: probe_stops_def)
  from assms(2) obtain j where j: "j < length (probe_order s)"
    "probe_stops s (probe_order s ! j)" "t = probe_order s ! j"
    "\<forall>i<j. \<not> probe_stops s (probe_order s ! i)"
    by (auto simp: select_candidate_def P find_Some_iff)
  from j(1) have jl: "j < length (vcpus s)" by (simp add: probe_order_length)
  then have N: "0 < ?N" by (auto simp: vmm_manager_vcpu_count_def)
  have "0 \<le> ?n" "?n < ?N" using N by simp_all
  moreover have "\<forall>i<j. \<not> probe_stops s ((?n + int i) mod ?N)"
    using j(4) jl probe_order_nth [OF assms(1)] by simp
  moreover have "probe_stops s ((?n + int j) mod ?N)"
    using j(2) jl probe_order_nth [OF assms(1)] by simp
  ultimately have loop:
    "vmm_scheduler_next_loop s ?n = Some (Inr (nat ((?n + int j) mod ?N)))"
    by (rule next_loop_found)
  have t: "t = (?n + int j) mod ?N"
    using j(3) jl probe_order_nth [OF assms(1)] by simp
  then have p: "nat t < length (vcpus s)" "int (nat t) = t"
    using N by (simp_all add: vmm_manager_vcpu_count_def nat_less_iff)
  let ?s' = "make_current (nat t) (context_switch (vmm_manager_vcpu s (vcpu_current s)) (nat t) s)"
  have "vmm_scheduler_next s = Some (Inr ?s')"
    using loop N t by (simp add: vmm_scheduler_next_def next_index_def Let_def)
  moreover have "vcpu_current ?s' = t"
    using dispatch_current(1) [OF assms(1) p(1)] p(2) by simp
  ultimately show ?thesis by blast
qed

lemma dispatch_select_candidate:
  assumes "registry_ok s" "vmm_scheduler_next s = Some (Inr s')"
  shows "select_candidate s = Some (vcpu_current s')"
proof -
  let ?N = "vmm_manager_vcpu_count s"
  let ?n = "((case vmm_manager_vcpu s (vcpu_current s) of
               Some c \<Rightarrow> num (deref s c) | None \<Rightarrow> - 1) + 1) mod ?N"
  have P: "(\<lambda>i. state (deref s (nat i)) = VMM_VCPU_STATE_READY \<or> i = vcpu_current s) =
           probe_stops s"
    by (simp add: probe_stops_def fun_eq_iff)
  from next_result [OF assms(2)] obtain p where p: "p < length (vcpus s)"
    "probe_stops s (int p)"
    by blast
  then have N: "0 < ?N" "int p < ?N" by (auto simp: vmm_manager_vcpu_count_def)
  define d where "d = nat ((int p - ?n) mod ?N)"
  have d: "d < length (vcpus s)"
    using N by (simp add: d_def vmm_manager_vcpu_count_def nat_less_iff)
  have "(?n + int d) mod ?N = int p"
    using N by (simp add: d_def mod_add_right_eq)
  then have "probe_order s ! d = int p"
    using probe_order_nth [OF assms(1) d] by simp
  then have "int p \<in> set (probe_order s)"
    using d by (metis nth_mem probe_order_length)
  with p(2) have "select_candidate s \<noteq> None"
    by (auto simp: select_candidate_def P find_None_iff)
  then obtain t where t: "select_candidate s = Some t" by blast
  from select_candidate_dispatch [OF assms(1) this] assms(2) t show ?thesis by auto
qed

lemma distinct_ready_list: "distinct (ready_list s)"
  by (simp add: ready_list_def distinct_map)

text \<open>
  C1. With a well-formed registry the dispatcher selects in the order the spec gives:
  the candidates start at \<open>(current_index + 1) mod N\<close> (at 0 without a current vcpu) and
  advance by \<open>(candidate + 1) mod N\<close>, and the first of them that is Ready or is the
  current index (\<open>select_candidate\<close>) is the vcpu a dispatch makes current; a dispatch
  that returns has selected that candidate. Consequently repeated dispatch with nothing in
  between, one call for each Ready vcpu, returns, and the vcpus it makes current are the
  Ready vcpus, each of them once.
\<close>

theorem dispatch_round_robin:
  assumes "registry_ok s"
  shows "(\<forall>t. select_candidate s = Some t \<longrightarrow>
            (\<exists>s'. vmm_scheduler_next s = Some (Inr s') \<and> vcpu_current s' = t)) \<and>
         (\<forall>s'. vmm_scheduler_next s = Some (Inr s') \<longrightarrow>
            select_candidate s = Some (vcpu_current s')) \<and>
         (\<exists>sel s'. dispatches (length (ready_list s)) s = Some (Inr (sel, s')) \<and>
            distinct sel \<and> set sel = set (ready_list s))"
proof (intro conjI allI impI)
  fix t assume "select_candidate s = Some t"
  with assms show "\<exists>s'. vmm_scheduler_next s = Some (Inr s') \<and> vcpu_current s' = t"
    by (rule select_candidate_dispatch)
next
  fix s' assume "vmm_scheduler_next s = Some (Inr s')"
  with assms show "select_candidate s = Some (vcpu_current s')"
    by (rule dispatch_select_candidate)
next
  have "card (set (ready_list s)) = length (ready_list s)"
    by (rule distinct_card [OF distinct_ready_list])
  with to_visit_ready_list [OF assms]
  show "\<exists>sel s'. dispatches (length (ready_list s)) s = Some (Inr (sel, s')) \<and>
            distinct sel \<and> set sel = set (ready_list s)"
    by (intro dispatches_visit) simp_all
qed

text \<open>
  Four vcpus, the third Running and current, the first and the last Ready: the first
  candidate is 3, and two dispatches select 3 and then 0.
\<close>

theorem dispatch_round_robin_witness:
  "select_candidate
     (core_with 2 [vcpu_at 0 VMM_VCPU_STATE_READY, vcpu_at 1 VMM_VCPU_STATE_PAUSED,
                   vcpu_at 2 VMM_VCPU_STATE_RUNNING, vcpu_at 3 VMM_VCPU_STATE_READY]) =
     Some 3 \<and>
   ready_list
     (core_with 2 [vcpu_at 0 VMM_VCPU_STATE_READY, vcpu_at 1 VMM_VCPU_STATE_PAUSED,
                   vcpu_at 2 VMM_VCPU_STATE_RUNNING, vcpu_at 3 VMM_VCPU_STATE_READY]) =
     [0, 3] \<and>
   map_option (map_sum id fst)
     (dispatches 2
        (core_with 2 [vcpu_at 0 VMM_VCPU_STATE_READY, vcpu_at 1 VMM_VCPU_STATE_PAUSED,
                      vcpu_at 2 VMM_VCPU_STATE_RUNNING, vcpu_at 3 VMM_VCPU_STATE_READY])) =
     Some (Inr [3, 0]) \<and>
   (\<exists>s'. vmm_scheduler_next
           (core_with 2 [vcpu_at 0 VMM_VCPU_STATE_READY, vcpu_at 1 VMM_VCPU_STATE_PAUSED,
                         vcpu_at 2 VMM_VCPU_STATE_RUNNING, vcpu_at 3 VMM_VCPU_STATE_READY]) =
           Some (Inr s') \<and> vcpu_current s' = 3) \<and>
   (\<exists>sel s'. dispatches 2
           (core_with 2 [vcpu_at 0 VMM_VCPU_STATE_READY, vcpu_at 1 VMM_VCPU_STATE_PAUSED,
                         vcpu_at 2 VMM_VCPU_STATE_RUNNING, vcpu_at 3 VMM_VCPU_STATE_READY]) =
           Some (Inr (sel, s')) \<and> distinct sel \<and> set sel = {0, 3})"
proof -
  let ?W = "core_with 2 [vcpu_at 0 VMM_VCPU_STATE_READY, vcpu_at 1 VMM_VCPU_STATE_PAUSED,
                         vcpu_at 2 VMM_VCPU_STATE_RUNNING, vcpu_at 3 VMM_VCPU_STATE_READY]"
  have ok: "registry_ok ?W" by code_simp
  have sel: "select_candidate ?W = Some 3" by code_simp
  have rdy: "ready_list ?W = [0, 3]" by code_simp
  have run: "map_option (map_sum id fst) (dispatches 2 ?W) = Some (Inr [3, 0])"
    by code_simp
  have len: "length (ready_list ?W) = 2" by (simp add: rdy)
  have rset: "set (ready_list ?W) = {0, 3}" by (simp add: rdy)
  note rr = dispatch_round_robin [OF ok, unfolded len rset]
  from rr sel have "\<exists>s'. vmm_scheduler_next ?W = Some (Inr s') \<and> vcpu_current s' = 3"
    by blast
  moreover from rr have "\<exists>sel s'. dispatches 2 ?W = Some (Inr (sel, s')) \<and>
      distinct sel \<and> set sel = {0, 3}"
    by blast
  ultimately show ?thesis using sel rdy run by blast
qed

subsection \<open>The tick accountant: one tick\<close>

lemma positive_count: "0 < w \<Longrightarrow> w \<noteq> 0" for w :: "32 word"
  by auto

text \<open>
  The branches of a tick. Without a current vcpu the tick is the dispatcher followed by the
  restart of the timer (and the dispatcher does return when some vcpu is Ready). With a
  current vcpu: if its \<open>preempt_count\<close> is positive, only the timer is restarted;
  otherwise, if its \<open>tick_pending\<close> is zero, the dispatcher runs, returns, and the timer
  is restarted; otherwise \<open>tick_pending\<close> is decremented by one, the hook \<open>tick_func\<close>,
  if there is one, is called with the decremented value, and the timer is restarted.
  Whenever the tick returns, the calls it has made end with the restart of the timer and
  hold no other restart.
\<close>

lemma timer_event_branches:
  "(vmm_manager_vcpu s (vcpu_current s) = None \<longrightarrow>
      vmm_scheduler_timer_event event s =
        map_option (map_sum id (vmm_timer_event_restart event)) (vmm_scheduler_next s) \<and>
      ((\<exists>r<length (vcpus s). state (vcpus s ! r) = VMM_VCPU_STATE_READY) \<longrightarrow>
         (\<exists>s1. vmm_scheduler_next s = Some (Inr s1) \<and>
               vmm_scheduler_timer_event event s =
                 Some (Inr (s1\<lparr>calls := calls s1 @ [TIMER_EVENT_RESTART event]\<rparr>))))) \<and>
   (\<forall>vcpu. vmm_manager_vcpu s (vcpu_current s) = Some vcpu \<longrightarrow>
      (0 < preempt_count (deref s vcpu) \<longrightarrow>
         vmm_scheduler_timer_event event s =
           Some (Inr (s\<lparr>calls := calls s @ [TIMER_EVENT_RESTART event]\<rparr>))) \<and>
      (preempt_count (deref s vcpu) = 0 \<and> tick_pending (deref s vcpu) = 0 \<longrightarrow>
         (\<exists>s1. vmm_scheduler_next s = Some (Inr s1) \<and>
               vmm_scheduler_timer_event event s =
                 Some (Inr (s1\<lparr>calls := calls s1 @ [TIMER_EVENT_RESTART event]\<rparr>)))) \<and>
      (preempt_count (deref s vcpu) = 0 \<and> tick_pending (deref s vcpu) \<noteq> 0 \<longrightarrow>
         vmm_scheduler_timer_event event s =
           Some (Inr (s\<lparr>vcpus := (vcpus s)[vcpu := (deref s vcpu)
                          \<lparr>tick_pending := tick_pending (deref s vcpu) - 1\<rparr>],
                        calls := calls s @
                          (case tick_func (deref s vcpu) of
                             Some f \<Rightarrow> [TICK_FUNC f (tick_pending (deref s vcpu) - 1)]
                           | None \<Rightarrow> []) @
                          [TIMER_EVENT_RESTART event]\<rparr>)))) \<and>
   (\<forall>s'. vmm_scheduler_timer_event event s = Some (Inr s') \<longrightarrow>
      (\<exists>cs. calls s' = calls s @ cs @ [TIMER_EVENT_RESTART event] \<and>
            (\<forall>e. TIMER_EVENT_RESTART e \<notin> set cs)))"
proof (intro conjI allI impI)
  assume none: "vmm_manager_vcpu s (vcpu_current s) = None"
  then show eq: "vmm_scheduler_timer_event event s =
        map_option (map_sum id (vmm_timer_event_restart event)) (vmm_scheduler_next s)"
    by (simp add: vmm_scheduler_timer_event_def)
  show "\<exists>s1. vmm_scheduler_next s = Some (Inr s1) \<and>
               vmm_scheduler_timer_event event s =
                 Some (Inr (s1\<lparr>calls := calls s1 @ [TIMER_EVENT_RESTART event]\<rparr>))"
    if "\<exists>r<length (vcpus s). state (vcpus s ! r) = VMM_VCPU_STATE_READY"
  proof -
    from that next_returns_with_ready obtain s1
      where "vmm_scheduler_next s = Some (Inr s1)" by blast
    with eq show ?thesis
      by (simp add: vmm_timer_event_restart_def log_call_def)
  qed
next
  fix vcpu
  assume cur: "vmm_manager_vcpu s (vcpu_current s) = Some vcpu"
  show "vmm_scheduler_timer_event event s =
           Some (Inr (s\<lparr>calls := calls s @ [TIMER_EVENT_RESTART event]\<rparr>))"
    if "0 < preempt_count (deref s vcpu)"
    using cur positive_count [OF that]
    by (simp add: vmm_scheduler_timer_event_def vmm_timer_event_restart_def log_call_def)
  show "\<exists>s1. vmm_scheduler_next s = Some (Inr s1) \<and>
               vmm_scheduler_timer_event event s =
                 Some (Inr (s1\<lparr>calls := calls s1 @ [TIMER_EVENT_RESTART event]\<rparr>))"
    if "preempt_count (deref s vcpu) = 0 \<and> tick_pending (deref s vcpu) = 0"
  proof -
    from next_returns_with_current [OF cur] obtain s1
      where "vmm_scheduler_next s = Some (Inr s1)" by blast
    with cur that show ?thesis
      by (simp add: vmm_scheduler_timer_event_def vmm_timer_event_restart_def log_call_def)
  qed
  show "vmm_scheduler_timer_event event s =
           Some (Inr (s\<lparr>vcpus := (vcpus s)[vcpu := (deref s vcpu)
                          \<lparr>tick_pending := tick_pending (deref s vcpu) - 1\<rparr>],
                        calls := calls s @
                          (case tick_func (deref s vcpu) of
                             Some f \<Rightarrow> [TICK_FUNC f (tick_pending (deref s vcpu) - 1)]
                           | None \<Rightarrow> []) @
                          [TIMER_EVENT_RESTART event]\<rparr>))"
    if "preempt_count (deref s vcpu) = 0 \<and> tick_pending (deref s vcpu) \<noteq> 0"
    using cur that current_in_registry [OF cur]
    by (simp add: vmm_scheduler_timer_event_def vmm_timer_event_restart_def tick_down_def
          ptr_defs Let_def split: option.splits)
next
  fix s'
  assume ret: "vmm_scheduler_timer_event event s = Some (Inr s')"
  define body where "body =
       (case vmm_manager_vcpu s (vcpu_current s) of
          Some vcpu \<Rightarrow>
            if preempt_count (deref s vcpu) = 0 then
              if tick_pending (deref s vcpu) = 0 then vmm_scheduler_next s
              else Some (Inr (tick_down vcpu s))
            else Some (Inr s)
        | None \<Rightarrow> vmm_scheduler_next s)"
  from ret obtain z where z: "body = Some z"
    "map_sum id (vmm_timer_event_restart event) z = Inr s'"
    by (auto simp: vmm_scheduler_timer_event_def body_def)
  then obtain s1 where s1: "s' = s1\<lparr>calls := calls s1 @ [TIMER_EVENT_RESTART event]\<rparr>"
    and "z = Inr s1"
    by (cases z) (auto simp: vmm_timer_event_restart_def log_call_def)
  with z have body: "body = Some (Inr s1)" by simp
  have "\<exists>cs. calls s1 = calls s @ cs \<and> (\<forall>e. TIMER_EVENT_RESTART e \<notin> set cs)"
  proof (cases "vmm_scheduler_next s = Some (Inr s1)")
    case True
    from vmm_scheduler_next_calls [OF this] show ?thesis by fastforce
  next
    case False
    with body have "s1 = s \<or> (\<exists>vcpu. s1 = tick_down vcpu s)"
      by (auto simp: body_def split: option.splits if_splits)
    then show ?thesis
      by (auto simp: tick_down_def ptr_defs Let_def split: option.splits)
  qed
  with s1 show "\<exists>cs. calls s' = calls s @ cs @ [TIMER_EVENT_RESTART event] \<and>
            (\<forall>e. TIMER_EVENT_RESTART e \<notin> set cs)"
    by auto
qed

text \<open>
  The four branches on concrete cores: no current vcpu; a current vcpu inside a
  preemption-disabled section; an exhausted quantum (the second tick of the scenario of the
  spec); a running quantum with a hook, which receives the remaining tick count 0.
\<close>

lemma timer_event_examples:
  "vmm_scheduler_timer_event 0 (core_with (- 1) [vcpu_at 0 VMM_VCPU_STATE_READY]) =
     Some (Inr \<lparr>vcpu_current = 0, ev = Some 0, vcpus = [vcpu_at 0 VMM_VCPU_STATE_RUNNING],
                calls = [VCPU_REGS_SWITCH None (vcpu_at 0 VMM_VCPU_STATE_READY),
                         TIMER_EVENT_RESTART 0]\<rparr>) \<and>
   vmm_scheduler_timer_event 0
       (core_with 0 [(vcpu_at 0 VMM_VCPU_STATE_RUNNING)\<lparr>preempt_count := 2\<rparr>]) =
     Some (Inr ((core_with 0 [(vcpu_at 0 VMM_VCPU_STATE_RUNNING)\<lparr>preempt_count := 2\<rparr>])
                  \<lparr>calls := [TIMER_EVENT_RESTART 0]\<rparr>)) \<and>
   vmm_scheduler_timer_event 0
       (core_with 0 [(vcpu_at 0 VMM_VCPU_STATE_RUNNING)\<lparr>tick_pending := 0\<rparr>,
                     vcpu_at 1 VMM_VCPU_STATE_READY, vcpu_at 2 VMM_VCPU_STATE_READY]) =
     Some (Inr \<lparr>vcpu_current = 1, ev = Some 0,
                vcpus = [(vcpu_at 0 VMM_VCPU_STATE_READY)\<lparr>tick_pending := 0\<rparr>,
                         vcpu_at 1 VMM_VCPU_STATE_RUNNING, vcpu_at 2 VMM_VCPU_STATE_READY],
                calls = [VCPU_REGS_SWITCH
                           (Some ((vcpu_at 0 VMM_VCPU_STATE_READY)\<lparr>tick_pending := 0\<rparr>))
                           (vcpu_at 1 VMM_VCPU_STATE_READY),
                         TIMER_EVENT_RESTART 0]\<rparr>) \<and>
   vmm_scheduler_timer_event 0
       (core_with 0 [(vcpu_at 0 VMM_VCPU_STATE_RUNNING)\<lparr>tick_func := Some 7\<rparr>,
                     vcpu_at 1 VMM_VCPU_STATE_READY]) =
     Some (Inr ((core_with 0 [(vcpu_at 0 VMM_VCPU_STATE_RUNNING)
                                \<lparr>tick_pending := 0, tick_func := Some 7\<rparr>,
                              vcpu_at 1 VMM_VCPU_STATE_READY])
                  \<lparr>calls := [TICK_FUNC 7 0, TIMER_EVENT_RESTART 0]\<rparr>))"
  using timer_event_branches [of "core_with (- 1) [vcpu_at 0 VMM_VCPU_STATE_READY]" 0]
    timer_event_branches
      [of "core_with 0 [(vcpu_at 0 VMM_VCPU_STATE_RUNNING)\<lparr>preempt_count := 2\<rparr>]" 0]
    timer_event_branches
      [of "core_with 0 [(vcpu_at 0 VMM_VCPU_STATE_RUNNING)\<lparr>tick_pending := 0\<rparr>,
                     vcpu_at 1 VMM_VCPU_STATE_READY, vcpu_at 2 VMM_VCPU_STATE_READY]" 0]
    timer_event_branches
      [of "core_with 0 [(vcpu_at 0 VMM_VCPU_STATE_RUNNING)\<lparr>tick_func := Some 7\<rparr>,
                     vcpu_at 1 VMM_VCPU_STATE_READY]" 0]
  by (simp add: dispatch_eval vmm_timer_event_restart_def ptr_defs example_defs)

text \<open>
  C5. The timer is not re-armed on every tick. Without a current vcpu the tick calls the
  dispatcher (line 87) and comes to \<open>vmm_timer_event_restart\<close> (line 89) only when the
  dispatcher returns. On the core that \<open>vmm_scheduler_init\<close> leaves, with one vcpu in state
  Reset, the dispatcher never returns (the defect of C4): the first tick has no result, and
  so it makes no restart. In the other branches, and in this one when a vcpu is Ready, the
  tick does what the claim says (\<open>timer_event_branches\<close>).
\<close>

theorem tick_hangs_after_init:
  "vmm_scheduler_timer_event 0
     (snd (vmm_scheduler_init (Some 0) 1
        \<lparr>vcpu_current = 0, ev = None, vcpus = [vcpu_at 0 VMM_VCPU_STATE_RESET],
         calls = []\<rparr>)) = None"
proof -
  let ?s = "snd (vmm_scheduler_init (Some 0) 1
        \<lparr>vcpu_current = 0, ev = None, vcpus = [vcpu_at 0 VMM_VCPU_STATE_RESET],
         calls = []\<rparr>)"
  have none: "vmm_manager_vcpu ?s (vcpu_current ?s) = None"
    by (simp add: vmm_scheduler_init_def ptr_defs)
  have "vmm_scheduler_next ?s = None"
    by (rule next_hangs) (simp_all add: vmm_scheduler_init_def ptr_defs example_defs)
  with none show ?thesis by (simp add: vmm_scheduler_timer_event_def)
qed

subsection \<open>The interrupt gate\<close>

text \<open>
  C8. On interrupt entry: without a current vcpu \<open>vmm_scheduler_irq_process\<close> returns
  and nothing has changed. With a current vcpu that is not Running it is the dispatcher
  that runs (and returns), and the interrupt is not handed to the vcpu: the calls it adds
  hold no \<open>vmm_vcpu_irq_process\<close>. With a Running current vcpu the frame goes to
  \<open>vmm_vcpu_irq_process\<close> and nothing else changes, so there is no dispatch.
\<close>

theorem irq_gate_routing:
  "(vmm_manager_vcpu s (vcpu_current s) = None \<longrightarrow>
      vmm_scheduler_irq_process s = Some (Inr s)) \<and>
   (\<forall>vcpu. vmm_manager_vcpu s (vcpu_current s) = Some vcpu \<longrightarrow>
      (state (deref s vcpu) \<noteq> VMM_VCPU_STATE_RUNNING \<longrightarrow>
         vmm_scheduler_irq_process s = vmm_scheduler_next s \<and>
         (\<exists>s' cs. vmm_scheduler_next s = Some (Inr s') \<and> calls s' = calls s @ cs \<and>
                   VCPU_IRQ_PROCESS \<notin> set cs)) \<and>
      (state (deref s vcpu) = VMM_VCPU_STATE_RUNNING \<longrightarrow>
         vmm_scheduler_irq_process s =
           Some (Inr (s\<lparr>calls := calls s @ [VCPU_IRQ_PROCESS]\<rparr>))))"
proof (intro conjI allI impI)
  assume "vmm_manager_vcpu s (vcpu_current s) = None"
  then show "vmm_scheduler_irq_process s = Some (Inr s)"
    by (simp add: vmm_scheduler_irq_process_def)
next
  fix vcpu
  assume cur: "vmm_manager_vcpu s (vcpu_current s) = Some vcpu"
    and st: "state (deref s vcpu) \<noteq> VMM_VCPU_STATE_RUNNING"
  then show "vmm_scheduler_irq_process s = vmm_scheduler_next s"
    by (simp add: vmm_scheduler_irq_process_def)
  from next_returns_with_current [OF cur] obtain s'
    where s': "vmm_scheduler_next s = Some (Inr s')" by blast
  from vmm_scheduler_next_calls [OF s'] obtain cs
    where "calls s' = calls s @ cs" "\<forall>x \<in> set cs. \<exists>f t. x = VCPU_REGS_SWITCH f t"
    by blast
  moreover from this have "VCPU_IRQ_PROCESS \<notin> set cs" by auto
  ultimately show "\<exists>s' cs. vmm_scheduler_next s = Some (Inr s') \<and> calls s' = calls s @ cs \<and>
                   VCPU_IRQ_PROCESS \<notin> set cs"
    using s' by blast
next
  fix vcpu
  assume "vmm_manager_vcpu s (vcpu_current s) = Some vcpu"
    and "state (deref s vcpu) = VMM_VCPU_STATE_RUNNING"
  then show "vmm_scheduler_irq_process s =
           Some (Inr (s\<lparr>calls := calls s @ [VCPU_IRQ_PROCESS]\<rparr>))"
    by (simp add: vmm_scheduler_irq_process_def vmm_vcpu_irq_process_def log_call_def)
qed

text \<open>
  The three routes on concrete cores: no current vcpu; a current vcpu that is Ready; a
  current vcpu that is Running.
\<close>

theorem irq_gate_routing_witness:
  "vmm_scheduler_irq_process (core_with (- 1) [vcpu_at 0 VMM_VCPU_STATE_READY]) =
     Some (Inr (core_with (- 1) [vcpu_at 0 VMM_VCPU_STATE_READY])) \<and>
   vmm_scheduler_irq_process
     (core_with 0 [vcpu_at 0 VMM_VCPU_STATE_READY, vcpu_at 1 VMM_VCPU_STATE_READY]) =
   vmm_scheduler_next
     (core_with 0 [vcpu_at 0 VMM_VCPU_STATE_READY, vcpu_at 1 VMM_VCPU_STATE_READY]) \<and>
   vmm_scheduler_irq_process (core_with 0 [vcpu_at 0 VMM_VCPU_STATE_RUNNING]) =
     Some (Inr ((core_with 0 [vcpu_at 0 VMM_VCPU_STATE_RUNNING])
                  \<lparr>calls := [VCPU_IRQ_PROCESS]\<rparr>))"
  using irq_gate_routing [of "core_with (- 1) [vcpu_at 0 VMM_VCPU_STATE_READY]"]
    irq_gate_routing
      [of "core_with 0 [vcpu_at 0 VMM_VCPU_STATE_READY, vcpu_at 1 VMM_VCPU_STATE_READY]"]
    irq_gate_routing [of "core_with 0 [vcpu_at 0 VMM_VCPU_STATE_RUNNING]"]
  by (simp add: ptr_defs example_defs)

subsection \<open>The preemption guard\<close>

lemma current_vcpu_eq:
  "vmm_scheduler_current_vcpu s =
     (if 0 \<le> vcpu_current s \<and> vcpu_current s < int (length (vcpus s))
      then Some (nat (vcpu_current s)) else None)"
  by (auto simp: vmm_scheduler_current_vcpu_def ptr_defs)

lemma preempt_disable_eq:
  "vmm_scheduler_preempt_disable s =
     (if 0 \<le> vcpu_current s \<and> vcpu_current s < int (length (vcpus s)) then
        s\<lparr>vcpus := (vcpus s)[nat (vcpu_current s) := (vcpus s ! nat (vcpu_current s))
             \<lparr>preempt_count := preempt_count (vcpus s ! nat (vcpu_current s)) + 1\<rparr>]\<rparr>
      else s)"
  by (simp add: vmm_scheduler_preempt_disable_def current_vcpu_eq assign_def)

lemma preempt_enable_eq:
  "vmm_scheduler_preempt_enable s =
     (if 0 \<le> vcpu_current s \<and> vcpu_current s < int (length (vcpus s)) \<and>
         preempt_count (vcpus s ! nat (vcpu_current s)) \<noteq> 0 then
        s\<lparr>vcpus := (vcpus s)[nat (vcpu_current s) := (vcpus s ! nat (vcpu_current s))
             \<lparr>preempt_count := preempt_count (vcpus s ! nat (vcpu_current s)) - 1\<rparr>]\<rparr>
      else s)"
  by (simp add: vmm_scheduler_preempt_enable_def current_vcpu_eq assign_def deref_def)

lemma guard_step_frame:
  "vcpu_current (guard_step c s) = vcpu_current s \<and>
   length (vcpus (guard_step c s)) = length (vcpus s) \<and>
   calls (guard_step c s) = calls s \<and> ev (guard_step c s) = ev s \<and>
   (\<forall>i. i \<noteq> nat (vcpu_current s) \<longrightarrow> vcpus (guard_step c s) ! i = vcpus s ! i)"
  by (cases c) (simp_all add: preempt_disable_eq preempt_enable_eq)

lemma guard_step_depth:
  assumes "0 \<le> vcpu_current s" "vcpu_current s < int (length (vcpus s))"
  shows "uint (preempt_count (vcpus (guard_step c s) ! nat (vcpu_current s))) =
           depth_after c (uint (preempt_count (vcpus s ! nat (vcpu_current s))))"
proof -
  let ?w = "preempt_count (vcpus s ! nat (vcpu_current s))"
  from assms have inr: "nat (vcpu_current s) < length (vcpus s)" by (simp add: nat_less_iff)
  show ?thesis
  proof (cases c)
    case PREEMPT_DISABLE
    have "uint (?w + 1) = (uint ?w + 1) mod 2 ^ 32"
      by (simp add: uint_word_ariths)
    with PREEMPT_DISABLE assms inr show ?thesis by (simp add: preempt_disable_eq)
  next
    case PREEMPT_ENABLE
    show ?thesis
    proof (cases "?w = 0")
      case True
      with PREEMPT_ENABLE show ?thesis by (simp add: preempt_enable_eq)
    next
      case False
      then have "uint ?w \<noteq> 0" by (simp add: uint_0_iff)
      with uint_nonnegative [of ?w] have pos: "0 < uint ?w" by linarith
      have "uint (?w - 1) = (uint ?w - 1) mod 2 ^ 32"
        by (simp add: uint_word_ariths)
      also have "\<dots> = uint ?w - 1"
        using pos uint_lt2p [of ?w] by (intro mod_pos_pos_trivial) simp_all
      finally have "uint (?w - 1) = uint ?w - 1" .
      with PREEMPT_ENABLE assms inr False pos show ?thesis by (simp add: preempt_enable_eq)
    qed
  qed
qed

lemma guard_calls_depth:
  assumes "0 \<le> vcpu_current s" "vcpu_current s < int (length (vcpus s))"
  shows "vcpu_current (fold guard_step cs s) = vcpu_current s \<and>
         length (vcpus (fold guard_step cs s)) = length (vcpus s) \<and>
         calls (fold guard_step cs s) = calls s \<and> ev (fold guard_step cs s) = ev s \<and>
         (\<forall>i. i \<noteq> nat (vcpu_current s) \<longrightarrow> vcpus (fold guard_step cs s) ! i = vcpus s ! i) \<and>
         uint (preempt_count (vcpus (fold guard_step cs s) ! nat (vcpu_current s))) =
           fold depth_after cs (uint (preempt_count (vcpus s ! nat (vcpu_current s))))"
  using assms
proof (induction cs arbitrary: s)
  case Nil
  then show ?case by simp
next
  case (Cons c cs)
  note f = guard_step_frame [of c s]
  have "0 \<le> vcpu_current (guard_step c s)"
    "vcpu_current (guard_step c s) < int (length (vcpus (guard_step c s)))"
    using Cons.prems f by simp_all
  from Cons.IH [OF this] f guard_step_depth [OF Cons.prems, of c]
  show ?case by simp
qed

lemma depth_after_nonneg: "0 \<le> n \<Longrightarrow> 0 \<le> fold depth_after cs n"
proof (induction cs arbitrary: n)
  case Nil
  then show ?case by simp
next
  case (Cons c cs)
  have "0 \<le> depth_after c n" using Cons.prems by (cases c) simp_all
  then show ?case by (simp add: Cons.IH)
qed

lemma guard_calls_without_current:
  assumes "\<not> (0 \<le> vcpu_current s \<and> vcpu_current s < int (length (vcpus s)))"
  shows "fold guard_step cs s = s"
proof (induction cs)
  case Nil
  show ?case by simp
next
  case (Cons c cs)
  have "guard_step c s = s"
    using assms by (cases c) (auto simp: preempt_disable_eq preempt_enable_eq)
  with Cons show ?case by simp
qed

text \<open>
  C7. The guard acts on the vcpu that \<open>sched.vcpu_current\<close> names, and on nothing when it
  names none. \<open>vmm_scheduler_preempt_disable\<close> adds one to its \<open>preempt_count\<close> (within
  the 32 bits of the field: the maximum wraps to zero); \<open>vmm_scheduler_preempt_enable\<close>
  subtracts one when the count is not zero and changes nothing when it is zero. Hence after
  any sequence of calls of the two the count, read as a number, is the nesting depth of the
  spec (\<open>depth_after\<close>), in which no call goes below zero; \<open>sched.vcpu_current\<close> and
  the other vcpus are as before.
\<close>

theorem preempt_count_guard:
  "vmm_scheduler_preempt_disable s =
     (if 0 \<le> vcpu_current s \<and> vcpu_current s < int (length (vcpus s)) then
        s\<lparr>vcpus := (vcpus s)[nat (vcpu_current s) := (vcpus s ! nat (vcpu_current s))
             \<lparr>preempt_count := preempt_count (vcpus s ! nat (vcpu_current s)) + 1\<rparr>]\<rparr>
      else s) \<and>
   vmm_scheduler_preempt_enable s =
     (if 0 \<le> vcpu_current s \<and> vcpu_current s < int (length (vcpus s)) \<and>
         preempt_count (vcpus s ! nat (vcpu_current s)) \<noteq> 0 then
        s\<lparr>vcpus := (vcpus s)[nat (vcpu_current s) := (vcpus s ! nat (vcpu_current s))
             \<lparr>preempt_count := preempt_count (vcpus s ! nat (vcpu_current s)) - 1\<rparr>]\<rparr>
      else s) \<and>
   (if 0 \<le> vcpu_current s \<and> vcpu_current s < int (length (vcpus s)) then
      uint (preempt_count (vcpus (fold guard_step cs s) ! nat (vcpu_current s))) =
        fold depth_after cs (uint (preempt_count (vcpus s ! nat (vcpu_current s)))) \<and>
      0 \<le> fold depth_after cs (uint (preempt_count (vcpus s ! nat (vcpu_current s)))) \<and>
      vcpu_current (fold guard_step cs s) = vcpu_current s \<and>
      length (vcpus (fold guard_step cs s)) = length (vcpus s) \<and>
      (\<forall>i. i \<noteq> nat (vcpu_current s) \<longrightarrow> vcpus (fold guard_step cs s) ! i = vcpus s ! i)
    else fold guard_step cs s = s)"
proof (intro conjI)
  show "vmm_scheduler_preempt_disable s =
     (if 0 \<le> vcpu_current s \<and> vcpu_current s < int (length (vcpus s)) then
        s\<lparr>vcpus := (vcpus s)[nat (vcpu_current s) := (vcpus s ! nat (vcpu_current s))
             \<lparr>preempt_count := preempt_count (vcpus s ! nat (vcpu_current s)) + 1\<rparr>]\<rparr>
      else s)"
    by (rule preempt_disable_eq)
  show "vmm_scheduler_preempt_enable s =
     (if 0 \<le> vcpu_current s \<and> vcpu_current s < int (length (vcpus s)) \<and>
         preempt_count (vcpus s ! nat (vcpu_current s)) \<noteq> 0 then
        s\<lparr>vcpus := (vcpus s)[nat (vcpu_current s) := (vcpus s ! nat (vcpu_current s))
             \<lparr>preempt_count := preempt_count (vcpus s ! nat (vcpu_current s)) - 1\<rparr>]\<rparr>
      else s)"
    by (rule preempt_enable_eq)
  show "if 0 \<le> vcpu_current s \<and> vcpu_current s < int (length (vcpus s)) then
      uint (preempt_count (vcpus (fold guard_step cs s) ! nat (vcpu_current s))) =
        fold depth_after cs (uint (preempt_count (vcpus s ! nat (vcpu_current s)))) \<and>
      0 \<le> fold depth_after cs (uint (preempt_count (vcpus s ! nat (vcpu_current s)))) \<and>
      vcpu_current (fold guard_step cs s) = vcpu_current s \<and>
      length (vcpus (fold guard_step cs s)) = length (vcpus s) \<and>
      (\<forall>i. i \<noteq> nat (vcpu_current s) \<longrightarrow> vcpus (fold guard_step cs s) ! i = vcpus s ! i)
    else fold guard_step cs s = s"
  proof (cases "0 \<le> vcpu_current s \<and> vcpu_current s < int (length (vcpus s))")
    case True
    then have "0 \<le> vcpu_current s" "vcpu_current s < int (length (vcpus s))" by simp_all
    from guard_calls_depth [OF this, of cs]
      depth_after_nonneg [of "uint (preempt_count (vcpus s ! nat (vcpu_current s)))" cs] True
    show ?thesis by simp
  next
    case False
    with guard_calls_without_current [OF False, of cs] show ?thesis by auto
  qed
qed

text \<open>
  A core with two vcpus whose current vcpu is the second, with count zero: disable counts
  on the second vcpu only, enable alone changes nothing, and a sequence that enables more
  often than it disables ends at zero with the first vcpu untouched. At the maximum of the
  field disable wraps to zero, and without a current vcpu it does nothing.
\<close>

theorem preempt_count_guard_witness:
  "map preempt_count (vcpus (vmm_scheduler_preempt_disable
      (core_with 1 [vcpu_at 0 VMM_VCPU_STATE_READY, vcpu_at 1 VMM_VCPU_STATE_RUNNING]))) =
     [0, 1] \<and>
   vmm_scheduler_preempt_enable
      (core_with 1 [vcpu_at 0 VMM_VCPU_STATE_READY, vcpu_at 1 VMM_VCPU_STATE_RUNNING]) =
     core_with 1 [vcpu_at 0 VMM_VCPU_STATE_READY, vcpu_at 1 VMM_VCPU_STATE_RUNNING] \<and>
   uint (preempt_count (vcpus (fold guard_step
      [PREEMPT_ENABLE, PREEMPT_DISABLE, PREEMPT_DISABLE, PREEMPT_ENABLE, PREEMPT_ENABLE,
       PREEMPT_ENABLE]
      (core_with 1 [vcpu_at 0 VMM_VCPU_STATE_READY, vcpu_at 1 VMM_VCPU_STATE_RUNNING])) ! 1)) =
     0 \<and>
   vcpus (fold guard_step
      [PREEMPT_ENABLE, PREEMPT_DISABLE, PREEMPT_DISABLE, PREEMPT_ENABLE, PREEMPT_ENABLE,
       PREEMPT_ENABLE]
      (core_with 1 [vcpu_at 0 VMM_VCPU_STATE_READY, vcpu_at 1 VMM_VCPU_STATE_RUNNING])) ! 0 =
     vcpu_at 0 VMM_VCPU_STATE_READY \<and>
   map preempt_count (vcpus (vmm_scheduler_preempt_disable
      (core_with 0 [(vcpu_at 0 VMM_VCPU_STATE_RUNNING)\<lparr>preempt_count := 4294967295\<rparr>]))) =
     [0] \<and>
   vmm_scheduler_preempt_disable (core_with (- 1) [vcpu_at 0 VMM_VCPU_STATE_READY]) =
     core_with (- 1) [vcpu_at 0 VMM_VCPU_STATE_READY]"
proof -
  let ?W = "core_with 1 [vcpu_at 0 VMM_VCPU_STATE_READY, vcpu_at 1 VMM_VCPU_STATE_RUNNING]"
  let ?M = "core_with 0 [(vcpu_at 0 VMM_VCPU_STATE_RUNNING)\<lparr>preempt_count := 4294967295\<rparr>]"
  let ?B = "core_with (- 1) [vcpu_at 0 VMM_VCPU_STATE_READY]"
  let ?cs = "[PREEMPT_ENABLE, PREEMPT_DISABLE, PREEMPT_DISABLE, PREEMPT_ENABLE,
              PREEMPT_ENABLE, PREEMPT_ENABLE]"
  note w = preempt_count_guard [of ?W ?cs]
  have cur: "0 \<le> vcpu_current ?W \<and> vcpu_current ?W < int (length (vcpus ?W))"
    and at: "nat (vcpu_current ?W) = 1" "preempt_count (vcpus ?W ! 1) = 0"
      "vcpus ?W ! 0 = vcpu_at 0 VMM_VCPU_STATE_READY"
    by (simp_all add: core_with_def vcpu_at_def)
  have a: "map preempt_count (vcpus (vmm_scheduler_preempt_disable ?W)) = [0, 1]"
    by (subst w [THEN conjunct1]) (simp add: example_defs)
  have b: "vmm_scheduler_preempt_enable ?W = ?W"
    by (subst w [THEN conjunct2, THEN conjunct1]) (simp add: example_defs)
  note seq = w [THEN conjunct2, THEN conjunct2, unfolded if_P [OF cur] at]
  have c: "uint (preempt_count (vcpus (fold guard_step ?cs ?W) ! 1)) = 0"
    by (subst seq [THEN conjunct1]) simp
  from seq have "\<forall>i. i \<noteq> 1 \<longrightarrow> vcpus (fold guard_step ?cs ?W) ! i = vcpus ?W ! i"
    by (elim conjE)
  then have "vcpus (fold guard_step ?cs ?W) ! 0 = vcpus ?W ! 0" by simp
  then have c': "vcpus (fold guard_step ?cs ?W) ! 0 = vcpu_at 0 VMM_VCPU_STATE_READY"
    by (simp only: at)
  have d: "map preempt_count (vcpus (vmm_scheduler_preempt_disable ?M)) = [0]"
    by (subst preempt_count_guard [of ?M "[]", THEN conjunct1]) (simp add: example_defs)
  have e: "vmm_scheduler_preempt_disable ?B = ?B"
    by (subst preempt_count_guard [of ?B "[]", THEN conjunct1]) (simp add: example_defs)
  from a b c c' d e show ?thesis by blast
qed

subsection \<open>The tick accountant: ticks under the preemption guard\<close>

text \<open>
  C6. While the \<open>preempt_count\<close> of the current vcpu is positive, any number \<open>k\<close> of
  consecutive timer ticks return and change nothing but the call log, which gains the
  \<open>k\<close> restarts of the timer: \<open>sched.vcpu_current\<close>, and the \<open>tick_pending\<close> and
  the state of every vcpu, are as before.
\<close>

theorem preempt_suppresses_ticks:
  assumes "vmm_manager_vcpu s (vcpu_current s) = Some vcpu"
    and "0 < preempt_count (deref s vcpu)"
  shows "timer_events event k s =
           Some (Inr (s\<lparr>calls := calls s @ replicate k (TIMER_EVENT_RESTART event)\<rparr>))"
  using assms
proof (induction k arbitrary: s)
  case 0
  then show ?case by simp
next
  case (Suc k)
  let ?s1 = "s\<lparr>calls := calls s @ [TIMER_EVENT_RESTART event]\<rparr>"
  from Suc.prems(1) positive_count [OF Suc.prems(2)]
  have tick: "vmm_scheduler_timer_event event s = Some (Inr ?s1)"
    by (simp add: vmm_scheduler_timer_event_def vmm_timer_event_restart_def log_call_def)
  have "timer_events event k ?s1 =
          Some (Inr (?s1\<lparr>calls := calls ?s1 @ replicate k (TIMER_EVENT_RESTART event)\<rparr>))"
    using Suc.prems by (intro Suc.IH) (simp_all add: ptr_defs)
  with tick show ?case by (simp add: replicate_app_Cons_same)
qed

text \<open>Three ticks after one \<open>vmm_scheduler_preempt_disable\<close>.\<close>

theorem preempt_suppresses_ticks_witness:
  "timer_events 0 3 (vmm_scheduler_preempt_disable
      (core_with 0 [vcpu_at 0 VMM_VCPU_STATE_RUNNING, vcpu_at 1 VMM_VCPU_STATE_READY])) =
   Some (Inr ((vmm_scheduler_preempt_disable
      (core_with 0 [vcpu_at 0 VMM_VCPU_STATE_RUNNING, vcpu_at 1 VMM_VCPU_STATE_READY]))
        \<lparr>calls := [TIMER_EVENT_RESTART 0, TIMER_EVENT_RESTART 0, TIMER_EVENT_RESTART 0]\<rparr>))"
  using preempt_suppresses_ticks [of "vmm_scheduler_preempt_disable
      (core_with 0 [vcpu_at 0 VMM_VCPU_STATE_RUNNING, vcpu_at 1 VMM_VCPU_STATE_READY])" 0 0 3]
  by (simp add: vmm_scheduler_current_vcpu_def vmm_scheduler_preempt_disable_def
        ptr_defs example_defs numeral_3_eq_3)

subsection \<open>The initializer\<close>

text \<open>
  C9. \<open>vmm_scheduler_init\<close> zeroes \<open>sched\<close>, sets \<open>vcpu_current\<close> to the sentinel \<open>-1\<close>
  and creates the timer event last. When the creation fails it returns \<open>VMM_EFAIL\<close>;
  \<open>vmm_timer_event_start\<close> has not been called, \<open>ev\<close> is \<open>NULL\<close> and \<open>vcpu_current\<close>
  is \<open>-1\<close>. When it succeeds, the timer is started with the tick period of the platform
  and the result is \<open>VMM_OK\<close>. The registry is not touched.
\<close>

theorem init_outcomes:
  "vmm_scheduler_init None period s =
     (VMM_EFAIL, s\<lparr>vcpu_current := - 1, ev := None,
                    calls := calls s @ [TIMER_EVENT_CREATE ''sched'']\<rparr>) \<and>
   vmm_scheduler_init (Some e) period s =
     (VMM_OK, s\<lparr>vcpu_current := - 1, ev := Some e,
                  calls := calls s @ [TIMER_EVENT_CREATE ''sched'',
                                     TIMER_EVENT_START e period]\<rparr>)"
  by (simp add: vmm_scheduler_init_def log_call_def)

end
